theory Spec2Isabelle
  imports Main "HOL-Library.Word"
begin

section \<open>Memory manager (memory_manager.cpp)\<close>

text \<open>
  \<^verbatim>\<open>size_t\<close> is an unsigned 64-bit integer on the 64-bit Android targets; every
  operation on it wraps modulo \<open>2 ^ 64\<close>, as the operations on \<open>64 word\<close> do.
\<close>

type_synonym size_t = "64 word"

datatype MemoryPressure = Low | Medium | High | Critical

text \<open>
  The host's \<^verbatim>\<open>/proc/meminfo\<close> as \<^verbatim>\<open>readMemInfo\<close> reports it: one value in bytes
  for each field the manager asks for, 0 when the file or the field is missing.
\<close>

record meminfo =
  MemTotal :: size_t
  MemAvailable :: size_t
  MemFree :: size_t
  Buffers :: size_t
  Cached :: size_t

definition MEMORY_LOW_THRESHOLD :: size_t where
  "MEMORY_LOW_THRESHOLD = 512 * 1024 * 1024"

definition MEMORY_MEDIUM_THRESHOLD :: size_t where
  "MEMORY_MEDIUM_THRESHOLD = 256 * 1024 * 1024"

definition MEMORY_HIGH_THRESHOLD :: size_t where
  "MEMORY_HIGH_THRESHOLD = 128 * 1024 * 1024"

definition MEMORY_CRITICAL_THRESHOLD :: size_t where
  "MEMORY_CRITICAL_THRESHOLD = 64 * 1024 * 1024"

definition ALLOCATION_SAFETY_MARGIN :: size_t where
  "ALLOCATION_SAFETY_MARGIN = 100 * 1024 * 1024"

definition MIN_FREE_AFTER_ALLOC :: size_t where
  "MIN_FREE_AFTER_ALLOC = 500 * 1024 * 1024"

definition BYTES_PER_TOKEN :: size_t where
  "BYTES_PER_TOKEN = 4 * 1024"

definition getTotalMemory :: "meminfo \<Rightarrow> size_t" where
  "getTotalMemory h = MemTotal h"

definition getAvailableMemory :: "meminfo \<Rightarrow> size_t" where
  "getAvailableMemory h =
     (let available = MemAvailable h in
      if available > 0 then available
      else MemFree h + Buffers h + Cached h)"

definition getMemoryPressure :: "meminfo \<Rightarrow> MemoryPressure" where
  "getMemoryPressure h =
     (let available = getAvailableMemory h in
      if available < MEMORY_CRITICAL_THRESHOLD then Critical
      else if available < MEMORY_HIGH_THRESHOLD then High
      else if available < MEMORY_MEDIUM_THRESHOLD then Medium
      else Low)"

definition canAllocate :: "meminfo \<Rightarrow> size_t \<Rightarrow> bool" where
  "canAllocate h bytes =
     (let available = getAvailableMemory h;
          needed = bytes + ALLOCATION_SAFETY_MARGIN in
      if available < needed then False
      else if available - bytes < MIN_FREE_AFTER_ALLOC then False
      else True)"

text \<open>
  The rounding loop of \<^verbatim>\<open>getRecommendedContextSize\<close>:
  \<^verbatim>\<open>while (result < max_tokens && result < 32768) result *= 2;\<close>
  Started at 0 with a positive \<open>max_tokens\<close> it would never end, so the loop is a
  partial function and \<open>None\<close> stands for not returning.
\<close>

partial_function (option) round_loop :: "size_t \<Rightarrow> size_t \<Rightarrow> size_t option" where
  "round_loop result max_tokens =
     (if result < max_tokens \<and> result < 32768
      then round_loop (result * 2) max_tokens
      else Some result)"

declare round_loop.simps [code]

definition clamp_tokens :: "size_t \<Rightarrow> size_t" where
  "clamp_tokens available =
     (let usable = (if available > ALLOCATION_SAFETY_MARGIN
                    then available - ALLOCATION_SAFETY_MARGIN else 0);
          max_tokens = usable div BYTES_PER_TOKEN;
          max_tokens = max max_tokens 512;
          max_tokens = min max_tokens 32768
      in max_tokens)"

definition getRecommendedContextSize :: "meminfo \<Rightarrow> size_t option" where
  "getRecommendedContextSize h =
     (let max_tokens = clamp_tokens (getAvailableMemory h) in
      case round_loop 512 max_tokens of
        None \<Rightarrow> None
      | Some result \<Rightarrow>
          Some (if result > max_tokens then result div 2 else result))"

text \<open>
  The manager's own state. The C++ callback is an opaque \<^verbatim>\<open>std::function\<close>; the model
  keeps the registered callback (if any) as a value of type \<open>'c\<close> and records every
  invocation, with the pressure level passed to it, in \<open>callback_log\<close>.
\<close>

record 'c MemoryManager =
  model_memory :: size_t
  context_memory :: size_t
  pressure_callback :: "'c option"
  callback_log :: "('c \<times> MemoryPressure) list"

definition setMemoryPressureCallback :: "'c option \<Rightarrow> 'c MemoryManager \<Rightarrow> 'c MemoryManager" where
  "setMemoryPressureCallback callback s = s\<lparr>pressure_callback := callback\<rparr>"

definition checkMemoryPressure :: "meminfo \<Rightarrow> 'c MemoryManager \<Rightarrow> 'c MemoryManager" where
  "checkMemoryPressure h s =
     (let pressure = getMemoryPressure h in
      case pressure_callback s of
        Some cb \<Rightarrow>
          if pressure \<noteq> Low
          then s\<lparr>callback_log := callback_log s @ [(cb, pressure)]\<rparr>
          else s
      | None \<Rightarrow> s)"

definition registerModelMemory ::
  "meminfo \<Rightarrow> size_t \<Rightarrow> 'c MemoryManager \<Rightarrow> 'c MemoryManager" where
  "registerModelMemory h bytes s =
     checkMemoryPressure h (s\<lparr>model_memory := model_memory s + bytes\<rparr>)"

definition unregisterModelMemory :: "size_t \<Rightarrow> 'c MemoryManager \<Rightarrow> 'c MemoryManager" where
  "unregisterModelMemory bytes s =
     (if bytes > model_memory s then s\<lparr>model_memory := 0\<rparr>
      else s\<lparr>model_memory := model_memory s - bytes\<rparr>)"

definition registerContextMemory ::
  "meminfo \<Rightarrow> size_t \<Rightarrow> 'c MemoryManager \<Rightarrow> 'c MemoryManager" where
  "registerContextMemory h bytes s =
     checkMemoryPressure h (s\<lparr>context_memory := context_memory s + bytes\<rparr>)"

definition unregisterContextMemory :: "size_t \<Rightarrow> 'c MemoryManager \<Rightarrow> 'c MemoryManager" where
  "unregisterContextMemory bytes s =
     (if bytes > context_memory s then s\<lparr>context_memory := 0\<rparr>
      else s\<lparr>context_memory := context_memory s - bytes\<rparr>)"

text \<open>A host whose \<^verbatim>\<open>MemAvailable\<close> line reports \<open>a\<close> bytes.\<close>

definition snapshot :: "size_t \<Rightarrow> meminfo" where
  "snapshot a = \<lparr>MemTotal = 0, MemAvailable = a, MemFree = 0, Buffers = 0, Cached = 0\<rparr>"

subsection \<open>The spec's formula for the recommended window capacity\<close>

text \<open>
  The spec's words, on natural numbers (where subtraction stops at 0, which is the
  spec's \<open>max(0, available - safety_margin)\<close>): clamp to \<open>[512, 32768]\<close>, then round
  down to a power of two.
\<close>

definition spec_clamped_tokens :: "nat \<Rightarrow> nat" where
  "spec_clamped_tokens available =
     (let usable = available - 100 * 1024 * 1024;
          tokens = usable div (4 * 1024)
      in min 32768 (max 512 tokens))"

fun pow2_floor :: "nat \<Rightarrow> nat" where
  "pow2_floor n = (if n < 2 then 1 else 2 * pow2_floor (n div 2))"

declare pow2_floor.simps [simp del]

definition spec_recommendedWindowCapacity :: "nat \<Rightarrow> nat" where
  "spec_recommendedWindowCapacity available = pow2_floor (spec_clamped_tokens available)"

text \<open>
  The values the rounding loop can stop at.
\<close>

definition pow2_candidates :: "size_t set" where
  "pow2_candidates = {512, 1024, 2048, 4096, 8192, 16384, 32768}"

section \<open>Inference engine (inference_engine.cpp)\<close>

text \<open>
  C++ \<^verbatim>\<open>int\<close> and \<^verbatim>\<open>int64_t\<close> values are modelled as \<open>int\<close>: the engine only adds
  1 or a vector length to them and compares them, which stays far from the
  limits of the machine types for the vectors a device can hold.
\<close>

type_synonym llama_token = int

text \<open>The fields of \<^verbatim>\<open>InferenceConfig\<close> that the modelled functions read.\<close>

record InferenceConfig =
  context_length :: int
  batch_size :: int
  max_tokens :: int

text \<open>
  A batch handed to \<^verbatim>\<open>llama_decode\<close>: either the one built by
  \<^verbatim>\<open>llama_batch_get_one\<close> for a single token (no explicit position), or the entries
  \<open>(token, pos, logits)\<close> filled in by \<^verbatim>\<open>evaluateTokens\<close>.
\<close>

datatype llama_batch =
  BatchOne llama_token
| BatchInit "(llama_token \<times> int \<times> bool) list"

text \<open>
  The llama.cpp library is an external collaborator. Its functions are parameters
  of the model: a record of functions over the library's own state \<open>'b\<close> (model,
  context, KV memory and sampler chain), each returning its result and the new state.
  \<^item> \<open>llama_tokenize text n_tokens_max\<close> returns the count \<open>n\<close> (negative: the buffer
    was too small and \<open>-n\<close> entries are needed) and the tokens it wrote;
  \<^item> \<open>llama_decode\<close> returns 0 on success;
  \<^item> \<open>llama_memory_seq_rm\<close> returns whether the range could be removed;
  \<^item> \<open>llama_get_memory\<close> tells whether the memory handle is non-null;
  \<^item> \<open>llama_sampler_chain_init\<close> stands for \<^verbatim>\<open>initSampler\<close>, which frees the sampler
    chain and builds a new one from the configuration.
\<close>

record 'b llama =
  llama_tokenize :: "string \<Rightarrow> int \<Rightarrow> 'b \<Rightarrow> (int \<times> llama_token list) \<times> 'b"
  llama_decode :: "llama_batch \<Rightarrow> 'b \<Rightarrow> int \<times> 'b"
  llama_sampler_sample :: "'b \<Rightarrow> llama_token \<times> 'b"
  llama_sampler_accept :: "llama_token \<Rightarrow> 'b \<Rightarrow> 'b"
  llama_sampler_chain_init :: "InferenceConfig \<Rightarrow> 'b \<Rightarrow> 'b"
  llama_vocab_is_eog :: "llama_token \<Rightarrow> bool"
  llama_token_to_piece :: "llama_token \<Rightarrow> int \<times> string"
  llama_get_memory :: "'b \<Rightarrow> bool"
  llama_memory_clear :: "'b \<Rightarrow> 'b"
  llama_memory_seq_rm :: "int \<Rightarrow> int \<Rightarrow> int \<Rightarrow> 'b \<Rightarrow> bool \<times> 'b"
  llama_memory_seq_add :: "int \<Rightarrow> int \<Rightarrow> int \<Rightarrow> int \<Rightarrow> 'b \<Rightarrow> 'b"

text \<open>
  The engine's members. \<open>loaded\<close> is \<^verbatim>\<open>model_ != nullptr && ctx_ != nullptr\<close>,
  \<open>mutex_locked\<close> is the state of \<^verbatim>\<open>mutex_\<close>, \<open>prompt_tokens\<close> and \<open>generated_tokens\<close>
  are the counters of \<^verbatim>\<open>stats_\<close>, and \<open>ctx\<close> is the state of the library.
\<close>

record 'b InferenceEngine =
  loaded :: bool
  is_generating :: bool
  stop_requested :: bool
  mutex_locked :: bool
  tokens :: "llama_token list"
  current_pos :: int
  n_past :: int
  prompt_tokens :: int
  generated_tokens :: int
  current_config :: InferenceConfig
  ctx :: 'b

text \<open>
  \<^verbatim>\<open>std::lock_guard<std::mutex> lock(mutex_)\<close>: the rest of the function runs with the
  mutex held and releases it on every return. \<^verbatim>\<open>std::mutex\<close> is not recursive: a
  thread that locks it while holding it blocks forever, so the call does not
  return (\<open>None\<close>).
\<close>

definition lock_guard ::
  "'b InferenceEngine \<Rightarrow> ('b InferenceEngine \<Rightarrow> ('r \<times> 'b InferenceEngine) option)
     \<Rightarrow> ('r \<times> 'b InferenceEngine) option" where
  "lock_guard s body =
     (if mutex_locked s then None
      else map_option (\<lambda>(r, s'). (r, s'\<lparr>mutex_locked := False\<rparr>))
             (body (s\<lparr>mutex_locked := True\<rparr>)))"

text \<open>
  \<^verbatim>\<open>std::vector::resize(n)\<close>: keeps the first \<open>n\<close> elements and pads with zeros.
  Writing the tokenizer's output into the buffer overwrites its first entries.
\<close>

definition resize :: "int \<Rightarrow> llama_token list \<Rightarrow> llama_token list" where
  "resize n xs = take (nat n) xs @ replicate (nat n - length xs) 0"

definition write_buf :: "llama_token list \<Rightarrow> llama_token list \<Rightarrow> llama_token list" where
  "write_buf out buf = take (length buf) (out @ drop (length out) buf)"

definition tokenizePrompt ::
  "'b llama \<Rightarrow> string \<Rightarrow> llama_token list \<Rightarrow> 'b \<Rightarrow> bool \<times> llama_token list \<times> 'b" where
  "tokenizePrompt L prompt toks b =
     (let n_max = int (length prompt) + 32;
          toks = resize n_max toks;
          ((n_tokens, out), b) = llama_tokenize L prompt n_max b;
          toks = write_buf out toks
      in if n_tokens < 0 then
           (let toks = resize (- n_tokens) toks;
                ((n_tokens, out), b) = llama_tokenize L prompt (- n_tokens) b;
                toks = write_buf out toks
            in if n_tokens < 0 then (False, toks, b)
               else (True, resize n_tokens toks, b))
         else (True, resize n_tokens toks, b))"

text \<open>
  The batched path of \<^verbatim>\<open>evaluateTokens\<close>:
  \<^verbatim>\<open>for (int i = 0; i < n_tokens; i += batch_size)\<close>. With \<open>batch_size \<le> 0\<close> the index
  never reaches \<open>n_tokens\<close>, so the loop is a partial function. The callers pass
  \<open>n_tokens = tokens.size()\<close>, so every \<open>toks ! nat (i + j)\<close> read here is in range.
\<close>

partial_function (option) evaluate_batches ::
  "'b llama \<Rightarrow> int \<Rightarrow> llama_token list \<Rightarrow> int \<Rightarrow> int \<Rightarrow> int \<Rightarrow> 'b \<Rightarrow> (bool \<times> 'b) option" where
  "evaluate_batches L bs toks n_past0 n_tokens i b =
     (if i < n_tokens then
        (case llama_decode L
                (BatchInit (map (\<lambda>j. (toks ! nat (i + j), n_past0 + i + j, i + j = n_tokens - 1))
                              [0 .. min bs (n_tokens - i) - 1])) b of
           (rc, b') \<Rightarrow>
             if rc \<noteq> 0 then Some (False, b')
             else evaluate_batches L bs toks n_past0 n_tokens (i + bs) b')
      else Some (True, b))"

declare evaluate_batches.simps [code]

definition evaluateTokens ::
  "'b llama \<Rightarrow> InferenceConfig \<Rightarrow> llama_token list \<Rightarrow> int \<Rightarrow> int \<Rightarrow> 'b \<Rightarrow> (bool \<times> 'b) option" where
  "evaluateTokens L cfg toks n_past0 n_tokens b =
     (if n_tokens = 1 then
        (case llama_decode L (BatchOne (toks ! 0)) b of
           (rc, b') \<Rightarrow> if rc \<noteq> 0 then Some (False, b') else Some (True, b'))
      else evaluate_batches L (batch_size cfg) toks n_past0 n_tokens 0 b)"

definition sampleNextToken :: "'b llama \<Rightarrow> 'b \<Rightarrow> llama_token \<times> 'b" where
  "sampleNextToken L b =
     (let (new_token, b) = llama_sampler_sample L b;
          b = llama_sampler_accept L new_token b
      in (new_token, b))"

definition tokenToString :: "'b llama \<Rightarrow> llama_token \<Rightarrow> string" where
  "tokenToString L token =
     (let (n, buf) = llama_token_to_piece L token in
      if n < 0 then [] else take (nat n) buf)"

definition clear_memory :: "'b llama \<Rightarrow> 'b \<Rightarrow> 'b" where
  "clear_memory L b = (if llama_get_memory L b then llama_memory_clear L b else b)"

definition startInference ::
  "'b llama \<Rightarrow> string \<Rightarrow> InferenceConfig \<Rightarrow> 'b InferenceEngine
     \<Rightarrow> (bool \<times> 'b InferenceEngine) option" where
  "startInference L prompt config s =
     (if \<not> loaded s then Some (False, s)
      else
        (let s = (if is_generating s
                  then s\<lparr>stop_requested := True, is_generating := False\<rparr> else s)
         in lock_guard s (\<lambda>s.
              (let s = s\<lparr>stop_requested := False, tokens := [], current_pos := 0, n_past := 0,
                         current_config := config,
                         ctx := llama_sampler_chain_init L config (ctx s)\<rparr>;
                   (ok, toks, b) = tokenizePrompt L prompt (tokens s) (ctx s);
                   s = s\<lparr>tokens := toks, ctx := b\<rparr>
               in if \<not> ok then Some (False, s)
                  else
                    (let s = s\<lparr>ctx := clear_memory L (ctx s),
                               prompt_tokens := int (length (tokens s)),
                               generated_tokens := 0\<rparr>
                     in case evaluateTokens L (current_config s) (tokens s) 0
                               (int (length (tokens s))) (ctx s) of
                          None \<Rightarrow> None
                        | Some (ok, b) \<Rightarrow>
                            if \<not> ok then Some (False, s\<lparr>ctx := b\<rparr>)
                            else Some (True, s\<lparr>ctx := b,
                                                n_past := int (length (tokens s)),
                                                current_pos := int (length (tokens s)),
                                                is_generating := True\<rparr>))))))"

text \<open>
  \<^verbatim>\<open>static_cast<size_t>(keep_tokens)\<close> of a negative \<open>keep_tokens\<close> is \<open>2 ^ 64 + keep_tokens\<close>.
  \<^verbatim>\<open>tokens_.erase(tokens_.begin(), tokens_.end() - keep_tokens)\<close> leaves the last
  \<open>keep_tokens\<close> entries.
\<close>

definition shiftContext ::
  "'b llama \<Rightarrow> int \<Rightarrow> 'b InferenceEngine \<Rightarrow> (unit \<times> 'b InferenceEngine) option" where
  "shiftContext L keep_tokens s =
     (if n_past s \<le> keep_tokens then Some ((), s)
      else lock_guard s (\<lambda>s.
        (let shift_amount = n_past s - keep_tokens;
             b = (if llama_get_memory L (ctx s)
                  then (let (removed, b) = llama_memory_seq_rm L 0 0 shift_amount (ctx s)
                        in llama_memory_seq_add L 0 shift_amount (n_past s) (- shift_amount) b)
                  else ctx s);
             s = s\<lparr>ctx := b, n_past := keep_tokens\<rparr>;
             s = (if int (length (tokens s)) > keep_tokens mod 2 ^ 64
                  then s\<lparr>tokens := drop (length (tokens s) - nat keep_tokens) (tokens s)\<rparr>
                  else s)
         in Some ((), s\<lparr>current_pos := int (length (tokens s))\<rparr>))))"

definition startInferenceIncremental ::
  "'b llama \<Rightarrow> string \<Rightarrow> InferenceConfig \<Rightarrow> 'b InferenceEngine
     \<Rightarrow> (bool \<times> 'b InferenceEngine) option" where
  "startInferenceIncremental L prompt config s =
     (if \<not> loaded s then Some (False, s)
      else
        (let s = (if is_generating s
                  then s\<lparr>stop_requested := True, is_generating := False\<rparr> else s)
         in lock_guard s (\<lambda>s.
              (let s = s\<lparr>stop_requested := False, current_config := config,
                         ctx := llama_sampler_chain_init L config (ctx s)\<rparr>;
                   (ok, new_tokens, b) = tokenizePrompt L prompt [] (ctx s);
                   s = s\<lparr>ctx := b\<rparr>
               in if \<not> ok then Some (False, s)
                  else
                    (let available_space = context_length (current_config s) - n_past s - 32
                     in case (if int (length new_tokens) > available_space
                              then shiftContext L 64 s else Some ((), s)) of
                          None \<Rightarrow> None
                        | Some (u, s) \<Rightarrow>
                            (let s = s\<lparr>prompt_tokens := int (length new_tokens),
                                       generated_tokens := 0\<rparr>
                             in case evaluateTokens L (current_config s) new_tokens (n_past s)
                                       (int (length new_tokens)) (ctx s) of
                                  None \<Rightarrow> None
                                | Some (ok, b) \<Rightarrow>
                                    if \<not> ok then Some (False, s\<lparr>ctx := b\<rparr>)
                                    else
                                      (let s = s\<lparr>ctx := b, tokens := tokens s @ new_tokens\<rparr>;
                                           s = s\<lparr>n_past := n_past s + int (length new_tokens)\<rparr>
                                       in Some (True,
                                            s\<lparr>current_pos := int (length (tokens s)),
                                              is_generating := True\<rparr>))))))))"

definition clearCache :: "'b llama \<Rightarrow> 'b InferenceEngine \<Rightarrow> (unit \<times> 'b InferenceEngine) option" where
  "clearCache L s =
     lock_guard s (\<lambda>s.
       Some ((), s\<lparr>ctx := clear_memory L (ctx s), tokens := [], n_past := 0, current_pos := 0\<rparr>))"

definition getNextToken ::
  "'b llama \<Rightarrow> 'b InferenceEngine \<Rightarrow> (string \<times> 'b InferenceEngine) option" where
  "getNextToken L s =
     (if \<not> is_generating s \<or> stop_requested s then Some ([], s\<lparr>is_generating := False\<rparr>)
      else lock_guard s (\<lambda>s.
        if n_past s \<ge> context_length (current_config s) - 1
        then Some ([], s\<lparr>is_generating := False\<rparr>)
        else if generated_tokens s \<ge> max_tokens (current_config s)
        then Some ([], s\<lparr>is_generating := False\<rparr>)
        else
          (let (new_token, b) = sampleNextToken L (ctx s);
               s = s\<lparr>ctx := b\<rparr>
           in if llama_vocab_is_eog L new_token then Some ([], s\<lparr>is_generating := False\<rparr>)
              else
                (let token_text = tokenToString L new_token;
                     s = s\<lparr>tokens := tokens s @ [new_token]\<rparr>
                 in case evaluateTokens L (current_config s) [new_token] (n_past s) 1 (ctx s) of
                      None \<Rightarrow> None
                    | Some (ok, b) \<Rightarrow>
                        if \<not> ok then Some ([], s\<lparr>ctx := b, is_generating := False\<rparr>)
                        else Some (token_text,
                               s\<lparr>ctx := b, n_past := n_past s + 1,
                                 generated_tokens := generated_tokens s + 1,
                                 current_pos := current_pos s + 1\<rparr>)))))"

text \<open>
  \<^verbatim>\<open>getNextTokens(count)\<close>: \<^verbatim>\<open>result.reserve(count)\<close> throws \<^verbatim>\<open>std::length_error\<close> for a
  negative \<open>count\<close>, before the engine is touched. The loop runs at most \<open>count\<close> times;
  the first argument of \<open>getNextTokens_loop\<close> is the number of rounds left.
\<close>

datatype error = LengthError

fun getNextTokens_loop ::
  "'b llama \<Rightarrow> nat \<Rightarrow> string list \<Rightarrow> 'b InferenceEngine
     \<Rightarrow> (string list \<times> 'b InferenceEngine) option" where
  "getNextTokens_loop L 0 result s = Some (result, s)"
| "getNextTokens_loop L (Suc n) result s =
     (if is_generating s \<and> \<not> stop_requested s then
        (case (if n_past s \<ge> context_length (current_config s) - 16
               then shiftContext L 64 s else Some ((), s)) of
           None \<Rightarrow> None
         | Some (u, s) \<Rightarrow>
             (case getNextToken L s of
                None \<Rightarrow> None
              | Some (token, s) \<Rightarrow>
                  if token = [] \<and> \<not> is_generating s then Some (result, s)
                  else getNextTokens_loop L n (result @ [token]) s))
      else Some (result, s))"

definition getNextTokens ::
  "'b llama \<Rightarrow> int \<Rightarrow> 'b InferenceEngine
     \<Rightarrow> ((error + string list) \<times> 'b InferenceEngine) option" where
  "getNextTokens L count s =
     (if count < 0 then Some (Inl LengthError, s)
      else map_option (\<lambda>(result, s). (Inr result, s))
             (getNextTokens_loop L (nat count) [] s))"

definition stopGeneration :: "'b InferenceEngine \<Rightarrow> 'b InferenceEngine" where
  "stopGeneration s = s\<lparr>stop_requested := True, is_generating := False\<rparr>"

text \<open>
  \<^verbatim>\<open>generateWithCallback\<close>: the synchronous generation loop. The callback is an
  optional function deciding whether to continue; \<open>delivered\<close> collects the
  \<open>(token, is_final)\<close> pairs passed to it. (The timing fields and \<^verbatim>\<open>total_tokens\<close> of
  \<^verbatim>\<open>stats_\<close> are left out.)
\<close>

partial_function (option) generate_loop ::
  "'b llama \<Rightarrow> (string \<Rightarrow> bool \<Rightarrow> bool) option \<Rightarrow> (string \<times> bool) list \<Rightarrow> 'b InferenceEngine
     \<Rightarrow> ((string \<times> bool) list \<times> 'b InferenceEngine) option" where
  "generate_loop L callback delivered s =
     (if is_generating s \<and> \<not> stop_requested s then
        (case getNextToken L s of
           None \<Rightarrow> None
         | Some (token, s) \<Rightarrow>
             if token = [] \<and> \<not> is_generating s then
               Some (case callback of None \<Rightarrow> delivered | Some f \<Rightarrow> delivered @ [([], True)], s)
             else
               (case callback of
                  None \<Rightarrow> generate_loop L callback delivered s
                | Some f \<Rightarrow>
                    if f token False
                    then generate_loop L callback (delivered @ [(token, False)]) s
                    else Some (delivered @ [(token, False)], stopGeneration s)))
      else Some (delivered, s))"

declare generate_loop.simps [code]

definition generateWithCallback ::
  "'b llama \<Rightarrow> string \<Rightarrow> InferenceConfig \<Rightarrow> (string \<Rightarrow> bool \<Rightarrow> bool) option
     \<Rightarrow> 'b InferenceEngine \<Rightarrow> (bool \<times> (string \<times> bool) list \<times> 'b InferenceEngine) option" where
  "generateWithCallback L prompt config callback s =
     (case startInference L prompt config s of
        None \<Rightarrow> None
      | Some (ok, s) \<Rightarrow>
          if \<not> ok then Some (False, [], s)
          else
            (case generate_loop L callback [] s of
               None \<Rightarrow> None
             | Some (delivered, s) \<Rightarrow> Some (True, delivered, s\<lparr>is_generating := False\<rparr>)))"

subsection \<open>The public operations as a transition system\<close>

datatype operation =
  StartInference string InferenceConfig
| StartInferenceIncremental string InferenceConfig
| GetNextToken
| GetNextTokens int
| ShiftContext int
| ClearCache

text \<open>The engine after an operation, when the operation returns.\<close>

fun step :: "'b llama \<Rightarrow> operation \<Rightarrow> 'b InferenceEngine \<Rightarrow> 'b InferenceEngine option" where
  "step L (StartInference prompt config) s = map_option snd (startInference L prompt config s)"
| "step L (StartInferenceIncremental prompt config) s =
     map_option snd (startInferenceIncremental L prompt config s)"
| "step L GetNextToken s = map_option snd (getNextToken L s)"
| "step L (GetNextTokens count) s = map_option snd (getNextTokens L count s)"
| "step L (ShiftContext keep_tokens) s = map_option snd (shiftContext L keep_tokens s)"
| "step L ClearCache s = map_option snd (clearCache L s)"

fun run :: "'b llama \<Rightarrow> operation list \<Rightarrow> 'b InferenceEngine \<Rightarrow> 'b InferenceEngine option" where
  "run L [] s = Some s"
| "run L (x # xs) s = (case step L x s of None \<Rightarrow> None | Some s' \<Rightarrow> run L xs s')"

text \<open>
  Conditions under which an operation is sure to return on an engine whose mutex is
  free: a positive batch size ends the batched evaluation loop, and an incremental
  start with at most 64 committed tokens never reaches the second lock of the mutex
  in \<^verbatim>\<open>shiftContext\<close>.
\<close>

fun returns_for :: "operation \<Rightarrow> 'b InferenceEngine \<Rightarrow> bool" where
  "returns_for (StartInference prompt config) s \<longleftrightarrow> 0 < batch_size config"
| "returns_for (StartInferenceIncremental prompt config) s \<longleftrightarrow>
     0 < batch_size config \<and> n_past s \<le> 64"
| "returns_for x s \<longleftrightarrow> True"

text \<open>
  The part of the session invariant that the engine maintains: the committed count
  \<^verbatim>\<open>n_past_\<close> never exceeds the length of the history \<^verbatim>\<open>tokens_\<close>. Between two
  operations of a single caller the mutex is free.
\<close>

definition committed_le_history :: "'b InferenceEngine \<Rightarrow> bool" where
  "committed_le_history s \<longleftrightarrow> n_past s \<le> int (length (tokens s))"

definition engine_ok :: "'b InferenceEngine \<Rightarrow> bool" where
  "engine_ok s \<longleftrightarrow> committed_le_history s \<and> \<not> mutex_locked s"

text \<open>The engine right after a successful \<^verbatim>\<open>loadModel\<close> with configuration \<open>config\<close>.\<close>

definition loaded_engine :: "InferenceConfig \<Rightarrow> 'b \<Rightarrow> 'b InferenceEngine" where
  "loaded_engine config b =
     \<lparr>loaded = True, is_generating = False, stop_requested = False, mutex_locked = False,
      tokens = [], current_pos = 0, n_past = 0, prompt_tokens = 0, generated_tokens = 0,
      current_config = config, ctx = b\<rparr>"

subsection \<open>A small library instance for concrete runs\<close>

text \<open>
  A library whose state is the log of the calls made to it. The tokenizer, the
  result of \<^verbatim>\<open>llama_decode\<close> and the answer of \<^verbatim>\<open>llama_memory_seq_rm\<close> are parameters;
  the sampler always draws token 42, whose text is \<open>x\<close>, and token 2 ends a sequence.
\<close>

datatype call =
  Tokenize int
| Decode llama_batch
| Sample
| Accept llama_token
| SamplerInit
| MemoryClear
| SeqRm int int int
| SeqAdd int int int int

definition toy_llama ::
  "(string \<Rightarrow> int \<Rightarrow> int \<times> llama_token list) \<Rightarrow> int \<Rightarrow> bool \<Rightarrow> call list llama" where
  "toy_llama tok decode_rc rm_ok =
     \<lparr>llama_tokenize = (\<lambda>text n_max log. (tok text n_max, log @ [Tokenize n_max])),
      llama_decode = (\<lambda>batch log. (decode_rc, log @ [Decode batch])),
      llama_sampler_sample = (\<lambda>log. (42, log @ [Sample])),
      llama_sampler_accept = (\<lambda>t log. log @ [Accept t]),
      llama_sampler_chain_init = (\<lambda>cfg log. log @ [SamplerInit]),
      llama_vocab_is_eog = (\<lambda>t. t = 2),
      llama_token_to_piece = (\<lambda>t. (1, ''x'')),
      llama_get_memory = (\<lambda>log. True),
      llama_memory_clear = (\<lambda>log. log @ [MemoryClear]),
      llama_memory_seq_rm = (\<lambda>seq p0 p1 log. (rm_ok, log @ [SeqRm seq p0 p1])),
      llama_memory_seq_add = (\<lambda>seq p0 p1 d log. log @ [SeqAdd seq p0 p1 d])\<rparr>"

text \<open>
  Two tokenizers: \<open>tok_per_char k\<close> produces \<open>k\<close> tokens (all 7) for each character and
  reports the size it needs when the buffer is smaller; \<open>tok_refuse\<close> always asks for
  one entry more than it was offered.
\<close>

definition tok_per_char :: "nat \<Rightarrow> string \<Rightarrow> int \<Rightarrow> int \<times> llama_token list" where
  "tok_per_char k text n_max =
     (let need = int (k * length text) in
      if need \<le> n_max then (need, replicate (nat need) 7) else (- need, []))"

definition tok_refuse :: "string \<Rightarrow> int \<Rightarrow> int \<times> llama_token list" where
  "tok_refuse text n_max = (- (n_max + 1), [])"

definition config_of :: "int \<Rightarrow> int \<Rightarrow> int \<Rightarrow> InferenceConfig" where
  "config_of n_ctx n_batch n_max =
     \<lparr>context_length = n_ctx, batch_size = n_batch, max_tokens = n_max\<rparr>"

text \<open>
  A callback that never asks to stop.
\<close>

definition always_continue :: "string \<Rightarrow> bool \<Rightarrow> bool" where
  "always_continue token is_final = True"

subsection \<open>Concrete runs\<close>

text \<open>
  A fresh start with a five-token prompt in a window of four tokens, on a library
  whose \<^verbatim>\<open>llama_decode\<close> fails.
\<close>

definition long_prompt_start :: "(bool \<times> call list InferenceEngine) option" where
  "long_prompt_start =
     startInference (toy_llama (tok_per_char 1) 1 True) ''hello'' (config_of 4 32 8)
       (loaded_engine (config_of 4 32 8) [])"

text \<open>
  A session on a window of 64 tokens: fresh start, one step, a batch pull of two,
  a shift keeping two tokens, and an incremental start.
\<close>

definition session_ops :: "operation list" where
  "session_ops =
     [StartInference ''hello'' (config_of 64 32 8), GetNextToken, GetNextTokens 2,
      ShiftContext 2, StartInferenceIncremental ''hi'' (config_of 64 32 8)]"

definition session_run :: "call list InferenceEngine option" where
  "session_run =
     run (toy_llama (tok_per_char 1) 0 True) session_ops (loaded_engine (config_of 64 32 8) [])"

text \<open>
  An engine holding three committed tokens.
\<close>

definition shift_state :: "call list InferenceEngine" where
  "shift_state = (loaded_engine (config_of 64 32 8) [])\<lparr>tokens := [5, 6, 7], n_past := 3\<rparr>"

text \<open>
  \<^verbatim>\<open>shiftContext(1)\<close> on a library whose \<^verbatim>\<open>llama_memory_seq_rm\<close> answers false.
\<close>

definition refused_shift :: "(unit \<times> call list InferenceEngine) option" where
  "refused_shift = shiftContext (toy_llama (tok_per_char 1) 0 False) 1 shift_state"

text \<open>
  Scenario A: window of 2048 tokens, a prompt of ten tokens, at most five output
  tokens, on a library that never fails and never draws an end-of-sequence token.
\<close>

definition scenario_A :: "(bool \<times> (string \<times> bool) list \<times> call list InferenceEngine) option" where
  "scenario_A =
     generateWithCallback (toy_llama (tok_per_char 1) 0 True) ''0123456789''
       (config_of 2048 512 5) (Some always_continue) (loaded_engine (config_of 2048 512 5) [])"

section \<open>Properties of the memory manager\<close>

lemma getAvailableMemory_snapshot: "getAvailableMemory (snapshot a) = a"
  by (simp add: getAvailableMemory_def snapshot_def word_greater_zero_iff)

subsection \<open>The allocation gate\<close>

text \<open>
  As long as \<open>bytes + 100 MB\<close> does not wrap around, the gate is the spec's pair of
  checks on the mathematical values.
\<close>

lemma canAllocate_nat:
  assumes "unat bytes + 104857600 < 2 ^ 64"
  shows "canAllocate h bytes \<longleftrightarrow>
           unat bytes + 104857600 \<le> unat (getAvailableMemory h) \<and>
           524288000 \<le> unat (getAvailableMemory h) - unat bytes"
proof -
  let ?a = "getAvailableMemory h"
  have m: "unat ALLOCATION_SAFETY_MARGIN = 104857600"
    by (simp add: ALLOCATION_SAFETY_MARGIN_def)
  have n: "unat (bytes + ALLOCATION_SAFETY_MARGIN) = unat bytes + 104857600"
    using assms m by (simp add: unat_add_lem [THEN iffD1])
  have f: "unat MIN_FREE_AFTER_ALLOC = 524288000"
    by (simp add: MIN_FREE_AFTER_ALLOC_def)
  show ?thesis
  proof (cases "?a < bytes + ALLOCATION_SAFETY_MARGIN")
    case True
    then have "unat ?a < unat bytes + 104857600"
      using n by (simp add: word_less_nat_alt)
    with True show ?thesis by (simp add: canAllocate_def)
  next
    case False
    then have ge: "unat bytes + 104857600 \<le> unat ?a"
      using n by (simp add: word_less_nat_alt)
    then have "bytes \<le> ?a" by (simp add: word_le_nat_alt)
    then have "unat (?a - bytes) = unat ?a - unat bytes" by (rule unat_sub)
    with False ge f show ?thesis
      by (simp add: canAllocate_def word_less_nat_alt not_less)
  qed
qed

lemma canAllocate_antitone_in_range:
  assumes "unat y + 104857600 < 2 ^ 64" and "x \<le> y" and "\<not> canAllocate h x"
  shows "\<not> canAllocate h y"
proof -
  have xy: "unat x \<le> unat y" using assms(2) by (simp add: word_le_nat_alt)
  then have "unat x + 104857600 < 2 ^ 64" using assms(1) by simp
  then show ?thesis
    using assms(1,3) xy by (simp add: canAllocate_nat) linarith
qed

lemma canAllocate_scenario_C:
  "\<not> canAllocate (snapshot (600 * 1024 * 1024)) (700 * 1024 * 1024) \<and>
   canAllocate (snapshot (1200 * 1024 * 1024)) (700 * 1024 * 1024)"
  by (simp add: canAllocate_def getAvailableMemory_snapshot
      ALLOCATION_SAFETY_MARGIN_def MIN_FREE_AFTER_ALLOC_def)

subsection \<open>The rounding loop\<close>

lemma round_loop_step:
  "r < m \<Longrightarrow> r < 32768 \<Longrightarrow> round_loop r m = round_loop (r * 2) m"
  by (subst round_loop.simps) simp

lemma round_loop_stop:
  "m \<le> r \<or> 32768 \<le> r \<Longrightarrow> round_loop r m = Some r"
  by (subst round_loop.simps) (auto simp: not_less)

lemma round_loop_512:
  assumes lo: "512 \<le> m" and hi: "m \<le> 32768"
  shows "\<exists>r. round_loop 512 m = Some r \<and> m \<le> r \<and> r \<in> pow2_candidates \<and>
              (r = 512 \<or> r div 2 < m)"
proof -
  consider "m \<le> 512" | "512 < m" "m \<le> 1024" | "1024 < m" "m \<le> 2048"
    | "2048 < m" "m \<le> 4096" | "4096 < m" "m \<le> 8192" | "8192 < m" "m \<le> 16384"
    | "16384 < m"
    by (meson not_le)
  then show ?thesis
  proof cases
    case 1
    then have "round_loop 512 m = Some 512" by (simp add: round_loop_stop)
    then show ?thesis using 1 by (simp add: pow2_candidates_def)
  next
    case 2
    have "round_loop 512 m = round_loop 1024 m" using 2 by (simp add: round_loop_step)
    also have "\<dots> = Some 1024" using 2 by (simp add: round_loop_stop)
    finally have "round_loop 512 m = Some 1024" .
    then show ?thesis using 2 by (simp add: pow2_candidates_def)
  next
    case 3
    have l: "512 < m" using 3 by (simp add: word_less_nat_alt)
    have "round_loop 512 m = round_loop 1024 m" using l by (simp add: round_loop_step)
    also have "\<dots> = round_loop 2048 m" using 3 by (simp add: round_loop_step)
    also have "\<dots> = Some 2048" using 3 by (simp add: round_loop_stop)
    finally have "round_loop 512 m = Some 2048" .
    then show ?thesis using 3 by (simp add: pow2_candidates_def)
  next
    case 4
    have l: "512 < m" "1024 < m" using 4 by (simp_all add: word_less_nat_alt)
    have "round_loop 512 m = round_loop 1024 m" using l by (simp add: round_loop_step)
    also have "\<dots> = round_loop 2048 m" using l by (simp add: round_loop_step)
    also have "\<dots> = round_loop 4096 m" using 4 by (simp add: round_loop_step)
    also have "\<dots> = Some 4096" using 4 by (simp add: round_loop_stop)
    finally have "round_loop 512 m = Some 4096" .
    then show ?thesis using 4 by (simp add: pow2_candidates_def)
  next
    case 5
    have l: "512 < m" "1024 < m" "2048 < m" using 5 by (simp_all add: word_less_nat_alt)
    have "round_loop 512 m = round_loop 1024 m" using l by (simp add: round_loop_step)
    also have "\<dots> = round_loop 2048 m" using l by (simp add: round_loop_step)
    also have "\<dots> = round_loop 4096 m" using l by (simp add: round_loop_step)
    also have "\<dots> = round_loop 8192 m" using 5 by (simp add: round_loop_step)
    also have "\<dots> = Some 8192" using 5 by (simp add: round_loop_stop)
    finally have "round_loop 512 m = Some 8192" .
    then show ?thesis using 5 by (simp add: pow2_candidates_def)
  next
    case 6
    have l: "512 < m" "1024 < m" "2048 < m" "4096 < m"
      using 6 by (simp_all add: word_less_nat_alt)
    have "round_loop 512 m = round_loop 1024 m" using l by (simp add: round_loop_step)
    also have "\<dots> = round_loop 2048 m" using l by (simp add: round_loop_step)
    also have "\<dots> = round_loop 4096 m" using l by (simp add: round_loop_step)
    also have "\<dots> = round_loop 8192 m" using l by (simp add: round_loop_step)
    also have "\<dots> = round_loop 16384 m" using 6 by (simp add: round_loop_step)
    also have "\<dots> = Some 16384" using 6 by (simp add: round_loop_stop)
    finally have "round_loop 512 m = Some 16384" .
    then show ?thesis using 6 by (simp add: pow2_candidates_def)
  next
    case 7
    have l: "512 < m" "1024 < m" "2048 < m" "4096 < m" "8192 < m"
      using 7 by (simp_all add: word_less_nat_alt)
    have "round_loop 512 m = round_loop 1024 m" using l by (simp add: round_loop_step)
    also have "\<dots> = round_loop 2048 m" using l by (simp add: round_loop_step)
    also have "\<dots> = round_loop 4096 m" using l by (simp add: round_loop_step)
    also have "\<dots> = round_loop 8192 m" using l by (simp add: round_loop_step)
    also have "\<dots> = round_loop 16384 m" using l by (simp add: round_loop_step)
    also have "\<dots> = round_loop 32768 m" using 7 by (simp add: round_loop_step)
    also have "\<dots> = Some 32768" by (simp add: round_loop_stop)
    finally have "round_loop 512 m = Some 32768" .
    then show ?thesis using 7 hi by (simp add: pow2_candidates_def)
  qed
qed

lemma pow2_floor_between:
  "2 ^ k \<le> n \<Longrightarrow> n < 2 ^ Suc k \<Longrightarrow> pow2_floor n = 2 ^ k"
proof (induction k arbitrary: n)
  case 0
  then show ?case by (subst pow2_floor.simps) simp
next
  case (Suc k)
  from Suc.prems have "2 ^ k \<le> n div 2" "n div 2 < 2 ^ Suc k" by simp_all
  then have "pow2_floor (n div 2) = 2 ^ k" by (rule Suc.IH)
  moreover have "2 * (1::nat) \<le> 2 * 2 ^ k" by simp
  then have "\<not> n < 2" using Suc.prems(1) by (simp only: power_Suc)
  ultimately show ?case by (subst pow2_floor.simps) simp
qed

lemma unat_clamp_tokens: "unat (clamp_tokens a) = spec_clamped_tokens (unat a)"
proof -
  let ?u = "if a > ALLOCATION_SAFETY_MARGIN then a - ALLOCATION_SAFETY_MARGIN else 0"
  have u: "unat ?u = unat a - 104857600"
    by (simp add: ALLOCATION_SAFETY_MARGIN_def unat_sub word_less_nat_alt word_le_nat_alt)
  have d: "unat (?u div BYTES_PER_TOKEN) = (unat a - 104857600) div 4096"
    using u by (simp add: BYTES_PER_TOKEN_def unat_div)
  have mx: "unat (max x y) = max (unat x) (unat y)" for x y :: size_t
    by (simp add: max_def word_le_nat_alt)
  have mn: "unat (min x y) = min (unat x) (unat y)" for x y :: size_t
    by (simp add: min_def word_le_nat_alt)
  show ?thesis
    using d
    by (simp add: clamp_tokens_def spec_clamped_tokens_def Let_def mx mn min.commute max.commute)
qed

lemma halve_case:
  fixes c r0 :: nat
  assumes "r0 = 2 ^ Suc j" and "c \<le> r0" and "r0 div 2 < c"
  shows "\<exists>k. (if c < r0 then r0 div 2 else r0) = 2 ^ k \<and> 2 ^ k \<le> c \<and> c < 2 ^ Suc k"
proof (cases "c < r0")
  case True
  then show ?thesis using assms by (intro exI[of _ j]) simp
next
  case False
  then have "c = 2 ^ Suc j" using assms by simp
  then show ?thesis using False assms(1) by (intro exI[of _ "Suc j"]) simp
qed

lemma spec_clamped_tokens_range:
  "512 \<le> spec_clamped_tokens a \<and> spec_clamped_tokens a \<le> 32768"
  by (simp add: spec_clamped_tokens_def Let_def)

lemma recommended_pow2:
  "\<exists>r k. getRecommendedContextSize h = Some r \<and> unat r = 2 ^ k \<and>
          2 ^ k \<le> spec_clamped_tokens (unat (getAvailableMemory h)) \<and>
          spec_clamped_tokens (unat (getAvailableMemory h)) < 2 ^ Suc k"
proof -
  let ?m = "clamp_tokens (getAvailableMemory h)"
  let ?c = "spec_clamped_tokens (unat (getAvailableMemory h))"
  have c: "unat ?m = ?c" by (rule unat_clamp_tokens)
  have rng: "512 \<le> ?c" "?c \<le> 32768" using spec_clamped_tokens_range by simp_all
  have "512 \<le> ?m" "?m \<le> 32768" using rng c by (simp_all add: word_le_nat_alt)
  then obtain r0 where r0: "round_loop 512 ?m = Some r0" "?m \<le> r0" "r0 \<in> pow2_candidates"
    "r0 = 512 \<or> r0 div 2 < ?m"
    using round_loop_512 by blast
  define r where "r = (if r0 > ?m then r0 div 2 else r0)"
  have res: "getRecommendedContextSize h = Some r"
    using r0(1) by (simp add: getRecommendedContextSize_def r_def Let_def)
  have ur: "unat r = (if ?c < unat r0 then unat r0 div 2 else unat r0)"
    using c by (simp add: r_def word_less_nat_alt unat_div)
  have le: "?c \<le> unat r0" using r0(2) c by (simp add: word_le_nat_alt)
  have hv: "r0 = 512 \<or> unat r0 div 2 < ?c"
    using r0(4) c by (auto simp add: word_less_nat_alt unat_div)
  have "\<exists>k. unat r = 2 ^ k \<and> 2 ^ k \<le> ?c \<and> ?c < 2 ^ Suc k"
  proof (cases "r0 = 512")
    case True
    then have "?c = 512" using le rng by simp
    then have "unat r = 2 ^ 9 \<and> 2 ^ 9 \<le> ?c \<and> ?c < 2 ^ Suc 9"
      using True ur by simp
    then show ?thesis by blast
  next
    case False
    then have h2: "unat r0 div 2 < ?c" using hv by simp
    have "\<exists>j. unat r0 = 2 ^ Suc j"
    proof -
      have "r0 = 1024 \<or> r0 = 2048 \<or> r0 = 4096 \<or> r0 = 8192 \<or> r0 = 16384 \<or> r0 = 32768"
        using False r0(3) by (simp add: pow2_candidates_def)
      then consider "unat r0 = 2 ^ Suc 9" | "unat r0 = 2 ^ Suc 10" | "unat r0 = 2 ^ Suc 11"
        | "unat r0 = 2 ^ Suc 12" | "unat r0 = 2 ^ Suc 13" | "unat r0 = 2 ^ Suc 14"
        by auto
      then show ?thesis by cases blast+
    qed
    then obtain j where "unat r0 = 2 ^ Suc j" ..
    from halve_case [OF this le h2] show ?thesis using ur by simp
  qed
  then show ?thesis using res by blast
qed

subsection \<open>The pressure callback\<close>

lemma checkMemoryPressure_log:
  "callback_log (checkMemoryPressure h s) =
     callback_log s @
       (case pressure_callback s of
          None \<Rightarrow> []
        | Some c \<Rightarrow> if getMemoryPressure h = Low then [] else [(c, getMemoryPressure h)])"
  by (simp add: checkMemoryPressure_def Let_def split: option.splits)

lemma pressure_Low_iff:
  "getMemoryPressure h = Low \<longleftrightarrow> 256 * 1024 * 1024 \<le> unat (getAvailableMemory h)"
  by (simp add: getMemoryPressure_def Let_def MEMORY_CRITICAL_THRESHOLD_def
      MEMORY_HIGH_THRESHOLD_def MEMORY_MEDIUM_THRESHOLD_def word_less_nat_alt)

section \<open>Properties of the inference engine\<close>

subsection \<open>The batched evaluation loop returns for a positive batch size\<close>

lemma lock_guard_SomeD:
  assumes "lock_guard s body = Some (r, s')"
  obtains s'' where "\<not> mutex_locked s" "body (s\<lparr>mutex_locked := True\<rparr>) = Some (r, s'')"
    "s' = s''\<lparr>mutex_locked := False\<rparr>"
  using assms by (auto simp: lock_guard_def split: if_splits)

lemma evaluate_batches_returns:
  assumes "0 < bs"
  shows "\<exists>r. evaluate_batches L bs toks np n i b = Some r"
proof (induction "nat (n - i)" arbitrary: i b rule: less_induct)
  case less
  show ?case
  proof (cases "i < n")
    case False
    then show ?thesis by (subst evaluate_batches.simps) auto
  next
    case True
    obtain rc b' where d: "llama_decode L
                (BatchInit (map (\<lambda>j. (toks ! nat (i + j), np + i + j, i + j = n - 1))
                              [0 .. min bs (n - i) - 1])) b = (rc, b')"
      by (cases "llama_decode L
                (BatchInit (map (\<lambda>j. (toks ! nat (i + j), np + i + j, i + j = n - 1))
                              [0 .. min bs (n - i) - 1])) b") 
    show ?thesis
    proof (cases "rc = 0")
      case False
      then show ?thesis using True d by (subst evaluate_batches.simps) auto
    next
      case rc: True
      have "nat (n - (i + bs)) < nat (n - i)" using True assms by simp
      then obtain r where "evaluate_batches L bs toks np n (i + bs) b' = Some r"
        using less by blast
      then show ?thesis using True d rc by (subst evaluate_batches.simps) simp
    qed
  qed
qed

lemma evaluate_batches_succeeds:
  assumes "0 < bs" and ok: "\<And>batch b. fst (llama_decode L batch b) = 0"
  shows "\<exists>b'. evaluate_batches L bs toks np n i b = Some (True, b')"
proof (induction "nat (n - i)" arbitrary: i b rule: less_induct)
  case less
  show ?case
  proof (cases "i < n")
    case False
    then show ?thesis by (subst evaluate_batches.simps) simp
  next
    case True
    obtain rc b' where d: "llama_decode L
                (BatchInit (map (\<lambda>j. (toks ! nat (i + j), np + i + j, i + j = n - 1))
                              [0 .. min bs (n - i) - 1])) b = (rc, b')"
      by (cases "llama_decode L
                (BatchInit (map (\<lambda>j. (toks ! nat (i + j), np + i + j, i + j = n - 1))
                              [0 .. min bs (n - i) - 1])) b") 
    have rc: "rc = 0" using ok [of "BatchInit (map (\<lambda>j. (toks ! nat (i + j), np + i + j, i + j = n - 1))
                              [0 .. min bs (n - i) - 1])" b] d by simp
    have "nat (n - (i + bs)) < nat (n - i)" using True assms by simp
    then obtain r where "evaluate_batches L bs toks np n (i + bs) b' = Some (True, r)"
      using less by blast
    then show ?thesis using True d rc by (subst evaluate_batches.simps) simp
  qed
qed

lemma evaluateTokens_returns:
  assumes "0 < batch_size cfg \<or> n = 1"
  shows "\<exists>r. evaluateTokens L cfg toks np n b = Some r"
proof (cases "n = 1")
  case True
  then show ?thesis by (auto simp add: evaluateTokens_def split: prod.splits)
next
  case False
  then show ?thesis using assms evaluate_batches_returns [of "batch_size cfg"]
    by (simp add: evaluateTokens_def)
qed

lemma evaluateTokens_succeeds:
  assumes "0 < batch_size cfg \<or> n = 1" and ok: "\<And>batch b. fst (llama_decode L batch b) = 0"
  shows "\<exists>b'. evaluateTokens L cfg toks np n b = Some (True, b')"
proof (cases "n = 1")
  case True
  then show ?thesis using ok [of "BatchOne (toks ! 0)" b]
    by (auto simp add: evaluateTokens_def split: prod.splits)
next
  case False
  then show ?thesis using assms evaluate_batches_succeeds [of "batch_size cfg" L]
    by (simp add: evaluateTokens_def)
qed

subsection \<open>Every operation keeps the committed count within the history\<close>

lemma shiftContext_ok:
  assumes "shiftContext L keep s = Some (u, s')" and "engine_ok s"
  shows "engine_ok s'"
  using assms
  by (auto simp: shiftContext_def engine_ok_def committed_le_history_def Let_def
      split: if_splits prod.splits elim!: lock_guard_SomeD)

lemma clearCache_ok:
  assumes "clearCache L s = Some (u, s')"
  shows "engine_ok s'"
  using assms
  by (auto simp: clearCache_def engine_ok_def committed_le_history_def elim!: lock_guard_SomeD)

lemma getNextToken_ok:
  assumes "getNextToken L s = Some (t, s')" and "engine_ok s"
  shows "engine_ok s'"
  using assms
  by (auto simp: getNextToken_def engine_ok_def committed_le_history_def Let_def
      split: if_splits prod.splits option.splits elim!: lock_guard_SomeD)

lemma startInference_ok:
  assumes "startInference L p c s = Some (t, s')" and "engine_ok s"
  shows "engine_ok s'"
  using assms
  by (auto simp: startInference_def engine_ok_def committed_le_history_def Let_def
      split: if_splits prod.splits option.splits elim!: lock_guard_SomeD)

lemma shiftContext_held:
  assumes "shiftContext L keep s = Some (u, s')" and "mutex_locked s"
  shows "s' = s"
  using assms by (auto simp: shiftContext_def lock_guard_def split: if_splits)

lemma startInferenceIncremental_ok:
  assumes "startInferenceIncremental L p c s = Some (t, s')" and "engine_ok s"
  shows "engine_ok s'"
  using assms
  by (auto simp: startInferenceIncremental_def engine_ok_def committed_le_history_def Let_def
      split: if_splits prod.splits option.splits elim!: lock_guard_SomeD 
      dest!: shiftContext_held)

lemma getNextTokens_loop_ok:
  assumes "getNextTokens_loop L n acc s = Some (r, s')" and "engine_ok s"
  shows "engine_ok s'"
  using assms
proof (induction n arbitrary: acc s)
  case 0
  then show ?case by simp
next
  case (Suc n)
  show ?case
  proof (cases "is_generating s \<and> \<not> stop_requested s")
    case False
    then show ?thesis using Suc.prems by auto
  next
    case True
    from Suc.prems(1) True obtain u s1 where
      s1: "(if n_past s \<ge> context_length (current_config s) - 16
               then shiftContext L 64 s else Some ((), s)) = Some (u, s1)"
      by (auto split: option.splits)
    then have ok1: "engine_ok s1" using Suc.prems(2) shiftContext_ok
      by (auto split: if_splits)
    from Suc.prems(1) True s1 obtain token s2 where
      s2: "getNextToken L s1 = Some (token, s2)"
      by (auto split: option.splits)
    then have ok2: "engine_ok s2" using ok1 getNextToken_ok by blast
    show ?thesis
    proof (cases "token = [] \<and> \<not> is_generating s2")
      case True
      then have "s' = s2" using Suc.prems(1) \<open>is_generating s \<and> \<not> stop_requested s\<close> s1 s2
        by auto
      then show ?thesis using ok2 by simp
    next
      case False
      then have "getNextTokens_loop L n (acc @ [token]) s2 = Some (r, s')"
        using Suc.prems(1) \<open>is_generating s \<and> \<not> stop_requested s\<close> s1 s2 by auto
      then show ?thesis using Suc.IH ok2 by blast
    qed
  qed
qed

lemma getNextTokens_ok:
  assumes "getNextTokens L count s = Some (r, s')" and "engine_ok s"
  shows "engine_ok s'"
  using assms getNextTokens_loop_ok
  by (fastforce simp: getNextTokens_def split: if_splits)

lemma step_ok:
  assumes "step L x s = Some s'" and "engine_ok s"
  shows "engine_ok s'"
proof (cases x)
  case (StartInference p c)
  then show ?thesis using assms startInference_ok by fastforce
next
  case (StartInferenceIncremental p c)
  then show ?thesis using assms startInferenceIncremental_ok by fastforce
next
  case GetNextToken
  then show ?thesis using assms getNextToken_ok by fastforce
next
  case (GetNextTokens n)
  then show ?thesis using assms getNextTokens_ok by fastforce
next
  case (ShiftContext k)
  then show ?thesis using assms shiftContext_ok by fastforce
next
  case ClearCache
  then show ?thesis using assms clearCache_ok by fastforce
qed

lemma run_ok:
  assumes "run L xs s = Some s'" and "engine_ok s"
  shows "engine_ok s'"
  using assms
proof (induction xs arbitrary: s)
  case Nil
  then show ?case by simp
next
  case (Cons x xs)
  then show ?case by (auto split: option.splits dest: step_ok)
qed

subsection \<open>When the operations return\<close>

lemma lock_guard_returns:
  assumes "\<not> mutex_locked s" and "\<exists>r. body (s\<lparr>mutex_locked := True\<rparr>) = Some r"
  shows "\<exists>r. lock_guard s body = Some r"
  using assms by (auto simp: lock_guard_def)

lemma shiftContext_returns:
  assumes "\<not> mutex_locked s"
  shows "\<exists>r. shiftContext L keep s = Some r"
  using assms by (auto simp: shiftContext_def lock_guard_def Let_def split: prod.splits)

lemma clearCache_returns:
  assumes "\<not> mutex_locked s"
  shows "\<exists>r. clearCache L s = Some r"
  using assms by (auto simp: clearCache_def lock_guard_def)

lemma evaluateTokens_single:
  "\<exists>r. evaluateTokens L cfg toks np 1 b = Some r"
  by (rule evaluateTokens_returns) simp

lemma getNextToken_returns:
  assumes "\<not> mutex_locked s"
  shows "\<exists>r. getNextToken L s = Some r"
proof (cases "\<not> is_generating s \<or> stop_requested s")
  case True
  then show ?thesis by (auto simp: getNextToken_def)
next
  case False
  have "\<exists>r. (case evaluateTokens L cfg toks np 1 b of None \<Rightarrow> None
               | Some (ok, b') \<Rightarrow> if \<not> ok then Some (f b') else Some (g b')) = Some r"
    for cfg toks np b and f g :: "'a \<Rightarrow> string \<times> 'a InferenceEngine"
    using evaluateTokens_single [of L cfg toks np b] by (auto split: prod.splits)
  then show ?thesis using False assms
    by (auto simp: getNextToken_def lock_guard_def Let_def split: prod.splits)
qed

lemma startInference_returns:
  assumes "\<not> mutex_locked s" and "0 < batch_size c"
  shows "\<exists>r. startInference L p c s = Some r"
proof -
  have "\<exists>r. (case evaluateTokens L c toks np n b of None \<Rightarrow> None
               | Some (ok, b') \<Rightarrow> if \<not> ok then Some (f b') else Some (g b')) = Some r"
    for toks np n b and f g :: "'a \<Rightarrow> bool \<times> 'a InferenceEngine"
    using evaluateTokens_returns [of c n L toks np b] assms(2) by (auto split: prod.splits)
  then show ?thesis using assms(1)
    by (auto simp: startInference_def lock_guard_def Let_def split: prod.splits)
qed

lemma startInferenceIncremental_returns:
  assumes "\<not> mutex_locked s" and "0 < batch_size c" and "n_past s \<le> 64"
  shows "\<exists>r. startInferenceIncremental L p c s = Some r"
proof -
  have ne: "(evaluateTokens L c toks np n b = None) = False" for toks np n b
    using evaluateTokens_returns [of c n L toks np b] assms(2) by auto
  show ?thesis using assms(1,3)
    by (auto simp: ne startInferenceIncremental_def lock_guard_def shiftContext_def Let_def
        split: prod.splits option.splits)
qed

text \<open>
  An incremental start that has to shift more than 64 committed tokens calls
  \<^verbatim>\<open>shiftContext\<close> while it holds the mutex, and \<^verbatim>\<open>shiftContext\<close> locks it again.
\<close>

lemma startInferenceIncremental_self_deadlock:
  assumes "loaded s" and "\<not> mutex_locked s" and "64 < n_past s"
    and "tokenizePrompt L p [] (llama_sampler_chain_init L c (ctx s)) = (True, new_tokens, b)"
    and "context_length c - n_past s - 32 < int (length new_tokens)"
  shows "startInferenceIncremental L p c s = None"
  using assms
  by (auto simp: startInferenceIncremental_def lock_guard_def shiftContext_def Let_def
      split: prod.splits)

lemma getNextTokens_loop_returns:
  assumes "engine_ok s"
  shows "\<exists>r. getNextTokens_loop L n acc s = Some r"
  using assms
proof (induction n arbitrary: acc s)
  case 0
  then show ?case by simp
next
  case (Suc n)
  let ?sh = "if n_past s \<ge> context_length (current_config s) - 16
               then shiftContext L 64 s else Some ((), s)"
  have m: "\<not> mutex_locked s" using Suc.prems by (simp add: engine_ok_def)
  obtain u s1 where s1: "?sh = Some (u, s1)"
    using shiftContext_returns [OF m, of L 64]
    by (cases "n_past s \<ge> context_length (current_config s) - 16") auto
  then have ok1: "engine_ok s1" using Suc.prems shiftContext_ok
    by (auto split: if_splits)
  then have "\<not> mutex_locked s1" by (simp add: engine_ok_def)
  then obtain token s2 where s2: "getNextToken L s1 = Some (token, s2)"
    using getNextToken_returns by fastforce
  then have ok2: "engine_ok s2" using ok1 getNextToken_ok by blast
  obtain r where "getNextTokens_loop L n (acc @ [token]) s2 = Some r"
    using Suc.IH [OF ok2] by blast
  then show ?case using s1 s2 by auto
qed

lemma getNextTokens_returns:
  assumes "engine_ok s"
  shows "\<exists>r. getNextTokens L count s = Some r"
  using getNextTokens_loop_returns [OF assms, of L "nat count" "[]"]
  by (auto simp: getNextTokens_def)

lemma step_returns:
  assumes "engine_ok s" and "returns_for x s"
  shows "\<exists>s'. step L x s = Some s'"
proof -
  have m: "\<not> mutex_locked s" using assms(1) by (simp add: engine_ok_def)
  show ?thesis
  proof (cases x)
    case (StartInference p c)
    then show ?thesis using assms(2) startInference_returns [OF m, of c L p] by auto
  next
    case (StartInferenceIncremental p c)
    then show ?thesis using assms(2) startInferenceIncremental_returns [OF m, of c L p] by auto
  next
    case GetNextToken
    then show ?thesis using getNextToken_returns [OF m, of L] by auto
  next
    case (GetNextTokens n)
    then show ?thesis using getNextTokens_returns [OF assms(1), of L n] by auto
  next
    case (ShiftContext k)
    then show ?thesis using shiftContext_returns [OF m, of L k] by auto
  next
    case ClearCache
    then show ?thesis using clearCache_returns [OF m, of L] by auto
  qed
qed

subsection \<open>Shifting the window\<close>

lemma shiftContext_noop:
  "n_past s \<le> keep \<Longrightarrow> shiftContext L keep s = Some ((), s)"
  by (simp add: shiftContext_def)

lemma shiftContext_shifts:
  assumes "0 \<le> keep" and "keep < n_past s" and "n_past s \<le> int (length (tokens s))"
    and "\<not> mutex_locked s"
  shows "\<exists>s'. shiftContext L keep s = Some ((), s') \<and>
           n_past s' = keep \<and>
           tokens s' = drop (length (tokens s) - nat keep) (tokens s) \<and>
           current_pos s' = keep \<and>
           ctx s' = (if llama_get_memory L (ctx s)
                     then llama_memory_seq_add L 0 (n_past s - keep) (n_past s) (- (n_past s - keep))
                            (snd (llama_memory_seq_rm L 0 0 (n_past s - keep) (ctx s)))
                     else ctx s)"
proof -
  have "keep mod 2 ^ 64 \<le> keep" using assms(1)
    by (metis mod_pos_pos_trivial less_le_not_le not_le zmod_le_nonneg_dividend)
  then have "keep mod 2 ^ 64 < int (length (tokens s))" using assms(2,3) by linarith
  then show ?thesis using assms
    by (auto simp: shiftContext_def lock_guard_def Let_def split: prod.splits)
qed

subsection \<open>Tokenizing the prompt\<close>

lemma length_resize: "0 \<le> n \<Longrightarrow> int (length (resize n xs)) = n"
  by (simp add: resize_def)

lemma resize_write_buf:
  assumes "int (length out) = n" and "n \<le> int (length buf)"
  shows "resize n (write_buf out buf) = out"
  using assms by (auto simp: resize_def write_buf_def)

lemma tokenizePrompt_first:
  assumes "llama_tokenize L prompt (int (length prompt) + 32) b = ((n1, out1), b1)" and "0 \<le> n1"
  shows "tokenizePrompt L prompt toks b =
           (True, resize n1 (write_buf out1 (resize (int (length prompt) + 32) toks)), b1)"
  using assms by (simp add: tokenizePrompt_def Let_def)

lemma tokenizePrompt_second:
  assumes "llama_tokenize L prompt (int (length prompt) + 32) b = ((n1, out1), b1)" and "n1 < 0"
    and "llama_tokenize L prompt (- n1) b1 = ((n2, out2), b2)"
  shows "tokenizePrompt L prompt toks b =
           (if n2 < 0
            then (False, write_buf out2 (resize (- n1)
                           (write_buf out1 (resize (int (length prompt) + 32) toks))), b2)
            else (True, resize n2 (write_buf out2 (resize (- n1)
                           (write_buf out1 (resize (int (length prompt) + 32) toks)))), b2))"
  using assms by (simp add: tokenizePrompt_def Let_def)

lemma startInference_tokenize_fails:
  assumes "loaded s" and "\<not> mutex_locked s"
    and "tokenizePrompt L prompt [] (llama_sampler_chain_init L config (ctx s)) = (False, ts, b')"
  shows "\<exists>s'. startInference L prompt config s = Some (False, s')"
  using assms by (auto simp: startInference_def lock_guard_def Let_def)

lemma startInferenceIncremental_tokenize_fails:
  assumes "loaded s" and "\<not> mutex_locked s"
    and "tokenizePrompt L prompt [] (llama_sampler_chain_init L config (ctx s)) = (False, ts, b')"
  shows "\<exists>s'. startInferenceIncremental L prompt config s = Some (False, s')"
  using assms by (auto simp: startInferenceIncremental_def lock_guard_def Let_def)

subsection \<open>The generation loop\<close>

lemma getNextToken_at_limit:
  assumes "\<not> mutex_locked s"
    and "context_length (current_config s) - 1 \<le> n_past s \<or>
         max_tokens (current_config s) \<le> generated_tokens s"
  shows "getNextToken L s = Some ([], s\<lparr>is_generating := False\<rparr>)"
proof -
  have "s\<lparr>is_generating := False, mutex_locked := False\<rparr> = s\<lparr>is_generating := False\<rparr>"
    using assms(1) by (cases s) simp
  then show ?thesis using assms
    by (auto simp: getNextToken_def lock_guard_def)
qed

lemma getNextToken_produces:
  assumes "is_generating s" and "\<not> stop_requested s" and "\<not> mutex_locked s"
    and "n_past s < context_length (current_config s) - 1"
    and "generated_tokens s < max_tokens (current_config s)"
    and ok: "\<And>batch b. fst (llama_decode L batch b) = 0"
    and ne: "\<And>b. \<not> llama_vocab_is_eog L (fst (llama_sampler_sample L b))"
  shows "\<exists>t s'. getNextToken L s = Some (t, s') \<and> is_generating s' \<and> \<not> stop_requested s' \<and>
           \<not> mutex_locked s' \<and> n_past s' = n_past s + 1 \<and>
           generated_tokens s' = generated_tokens s + 1 \<and>
           current_config s' = current_config s \<and>
           length (tokens s') = length (tokens s) + 1"
proof -
  obtain t b1 where sm: "llama_sampler_sample L (ctx s) = (t, b1)"
    by (cases "llama_sampler_sample L (ctx s)")
  then have neog: "\<not> llama_vocab_is_eog L t" using ne [of "ctx s"] by simp
  let ?b2 = "llama_sampler_accept L t b1"
  obtain rc b3 where d: "llama_decode L (BatchOne t) ?b2 = (rc, b3)"
    by (cases "llama_decode L (BatchOne t) ?b2")
  then have rc: "rc = 0" using ok [of "BatchOne t" ?b2] by simp
  show ?thesis using assms(1-5) sm neog d rc
    by (simp add: getNextToken_def lock_guard_def sampleNextToken_def evaluateTokens_def Let_def)
qed

lemma generate_loop_runs:
  assumes ok: "\<And>batch b. fst (llama_decode L batch b) = 0"
    and ne: "\<And>b. \<not> llama_vocab_is_eog L (fst (llama_sampler_sample L b))"
    and cont: "\<And>t. f t False"
  shows "is_generating s \<Longrightarrow> \<not> stop_requested s \<Longrightarrow> \<not> mutex_locked s \<Longrightarrow>
         generated_tokens s + int k = max_tokens (current_config s) \<Longrightarrow>
         n_past s + int k \<le> context_length (current_config s) - 1 \<Longrightarrow>
         \<exists>d s'. generate_loop L (Some f) delivered s = Some (delivered @ d @ [([], True)], s') \<and>
           length d = k \<and> (\<forall>x\<in>set d. \<not> snd x) \<and>
           \<not> is_generating s' \<and> \<not> stop_requested s' \<and> \<not> mutex_locked s' \<and>
           n_past s' = n_past s + int k \<and>
           generated_tokens s' = max_tokens (current_config s) \<and>
           current_config s' = current_config s \<and>
           length (tokens s') = length (tokens s) + k"
proof (induction k arbitrary: s delivered)
  case 0
  then have "getNextToken L s = Some ([], s\<lparr>is_generating := False\<rparr>)"
    by (intro getNextToken_at_limit) simp_all
  then have "generate_loop L (Some f) delivered s
               = Some (delivered @ [] @ [([], True)], s\<lparr>is_generating := False\<rparr>)"
    using 0 by (subst generate_loop.simps) simp
  then show ?case using 0 by (intro exI[of _ "[]"] exI[of _ "s\<lparr>is_generating := False\<rparr>"]) simp
next
  case (Suc k)
  have "n_past s < context_length (current_config s) - 1"
    "generated_tokens s < max_tokens (current_config s)"
    using Suc.prems by simp_all
  from getNextToken_produces [OF Suc.prems(1-3) this ok ne]
  obtain t s1 where s1: "getNextToken L s = Some (t, s1)" "is_generating s1"
    "\<not> stop_requested s1" "\<not> mutex_locked s1" "n_past s1 = n_past s + 1"
    "generated_tokens s1 = generated_tokens s + 1" "current_config s1 = current_config s"
    "length (tokens s1) = length (tokens s) + 1"
    by blast
  have g: "generated_tokens s1 + int k = max_tokens (current_config s1)"
    and n: "n_past s1 + int k \<le> context_length (current_config s1) - 1"
    using s1 Suc.prems by simp_all
  from Suc.IH [OF s1(2-4) g n, of "delivered @ [(t, False)]"]
  obtain d s' where r: "generate_loop L (Some f) (delivered @ [(t, False)]) s1
        = Some ((delivered @ [(t, False)]) @ d @ [([], True)], s')"
    "length d = k" "\<forall>x\<in>set d. \<not> snd x"
    "\<not> is_generating s'" "\<not> stop_requested s'" "\<not> mutex_locked s'"
    "n_past s' = n_past s1 + int k"
    "generated_tokens s' = max_tokens (current_config s1)"
    "current_config s' = current_config s1"
    "length (tokens s') = length (tokens s1) + k"
    by blast
  have "generate_loop L (Some f) delivered s
          = Some (delivered @ ((t, False) # d) @ [([], True)], s')"
    using Suc.prems(1,2) s1(1,2) cont r(1) by (subst generate_loop.simps) simp
  then show ?case using r s1
    by (intro exI[of _ "(t, False) # d"] exI[of _ s']) simp
qed

lemma startInference_succeeds:
  assumes "loaded s" and "\<not> mutex_locked s" and "0 < batch_size config"
    and tk: "tokenizePrompt L prompt [] (llama_sampler_chain_init L config (ctx s)) = (True, toks, b)"
    and ok: "\<And>batch b. fst (llama_decode L batch b) = 0"
  shows "\<exists>s'. startInference L prompt config s = Some (True, s') \<and>
           is_generating s' \<and> \<not> stop_requested s' \<and> \<not> mutex_locked s' \<and>
           tokens s' = toks \<and> n_past s' = int (length toks) \<and>
           generated_tokens s' = 0 \<and> current_config s' = config"
proof -
  obtain b' where "evaluateTokens L config toks 0 (int (length toks)) (clear_memory L b)
                     = Some (True, b')"
    using evaluateTokens_succeeds [of config "int (length toks)" L toks 0 "clear_memory L b"]
      assms(3) ok by blast
  then show ?thesis using assms(1,2) tk
    by (auto simp: startInference_def lock_guard_def Let_def)
qed

section \<open>Claims about the inference engine\<close>

text \<open>
  C1, as stated, fails: the history is not bounded by the window capacity. A fresh
  start stores the whole tokenized prompt in \<^verbatim>\<open>tokens_\<close> before anything is evaluated,
  and nothing compares its length with \<^verbatim>\<open>context_length\<close>. Here a five-token prompt
  meets a window of four tokens and a failing evaluation: \<^verbatim>\<open>startInference\<close> returns
  false and leaves five tokens in the history.
\<close>

theorem window_capacity_counterexample:
  "long_prompt_start \<noteq> None \<and>
   fst (the long_prompt_start) = False \<and>
   n_past (snd (the long_prompt_start)) = 0 \<and>
   length (tokens (snd (the long_prompt_start))) = 5 \<and>
   context_length (current_config (snd (the long_prompt_start))) = 4 \<and>
   \<not> int (length (tokens (snd (the long_prompt_start))))
       \<le> context_length (current_config (snd (the long_prompt_start)))"
  by code_simp

text \<open>
  C1, amended. From every engine state with \<open>committed \<le> len(history)\<close> and a free
  mutex, every sequence of the public operations \<^verbatim>\<open>startInference\<close>,
  \<^verbatim>\<open>startInferenceIncremental\<close>, \<^verbatim>\<open>getNextToken\<close>, \<^verbatim>\<open>getNextTokens\<close>, \<^verbatim>\<open>shiftContext\<close> and
  \<^verbatim>\<open>clearCache\<close> that returns, whether the operations succeed or fail, ends in a state
  with \<open>committed \<le> len(history)\<close> and a free mutex; and each operation does return
  there, provided the batch size of a start is positive and an incremental start
  finds at most 64 committed tokens.
\<close>

theorem committed_le_history_invariant:
  assumes "n_past s \<le> int (length (tokens s))" and "\<not> mutex_locked s"
  shows "(run L xs s = Some s' \<longrightarrow> n_past s' \<le> int (length (tokens s')) \<and> \<not> mutex_locked s') \<and>
         (returns_for x s \<longrightarrow> (\<exists>s''. step L x s = Some s''))"
proof -
  have ok: "engine_ok s" using assms by (simp add: engine_ok_def committed_le_history_def)
  have "run L xs s = Some s' \<longrightarrow> engine_ok s'" using run_ok ok by blast
  moreover have "returns_for x s \<longrightarrow> (\<exists>s''. step L x s = Some s'')"
    using step_returns ok by blast
  ultimately show ?thesis by (simp add: engine_ok_def committed_le_history_def)
qed

theorem committed_le_history_invariant_witness:
  "n_past (loaded_engine (config_of 64 32 8) ([] :: call list))
     \<le> int (length (tokens (loaded_engine (config_of 64 32 8) ([] :: call list)))) \<and>
   \<not> mutex_locked (loaded_engine (config_of 64 32 8) ([] :: call list)) \<and>
   session_run \<noteq> None \<and>
   n_past (the session_run) = 4 \<and> length (tokens (the session_run)) = 4 \<and>
   n_past (the session_run) \<le> int (length (tokens (the session_run))) \<and>
   returns_for (StartInference ''hello'' (config_of 64 32 8))
     (loaded_engine (config_of 64 32 8) ([] :: call list)) \<and>
   step (toy_llama (tok_per_char 1) 0 True) (StartInference ''hello'' (config_of 64 32 8))
     (loaded_engine (config_of 64 32 8) []) \<noteq> None"
proof -
  let ?s = "loaded_engine (config_of 64 32 8) ([] :: call list)"
  let ?L = "toy_llama (tok_per_char 1) 0 True"
  have a: "n_past ?s \<le> int (length (tokens ?s))" "\<not> mutex_locked ?s"
    by (simp_all add: loaded_engine_def)
  have r: "session_run \<noteq> None" by code_simp
  then have r': "run ?L session_ops ?s = Some (the session_run)"
    by (simp add: session_run_def)
  have v: "n_past (the session_run) = 4" "length (tokens (the session_run)) = 4"
    by code_simp+
  have rf: "returns_for (StartInference ''hello'' (config_of 64 32 8)) ?s"
    by (simp add: config_of_def)
  from committed_le_history_invariant [OF a, of ?L session_ops "the session_run"
      "StartInference ''hello'' (config_of 64 32 8)"] r' rf
  show ?thesis using a r v by auto
qed

text \<open>
  C2. For every number \<open>keep\<close> of tokens to keep (\<open>keep \<ge> 0\<close>), on an engine with
  \<open>committed \<le> len(history)\<close> and a free mutex, which is every state the public
  operations reach: \<^verbatim>\<open>shiftContext(keep)\<close> changes nothing when \<open>committed \<le> keep\<close>;
  otherwise it returns with \<open>len(history) = keep\<close> and \<open>committed = keep\<close>, the new
  history is the last \<open>keep\<close> tokens of the old one, and the oldest
  \<open>committed_before - keep\<close> tokens are among those dropped.
\<close>

theorem shiftContext_keeps_last:
  assumes "0 \<le> keep" and "n_past s \<le> int (length (tokens s))" and "\<not> mutex_locked s"
  shows "(n_past s \<le> keep \<longrightarrow> shiftContext L keep s = Some ((), s)) \<and>
         (keep < n_past s \<longrightarrow>
            (\<exists>s'. shiftContext L keep s = Some ((), s') \<and>
                  int (length (tokens s')) = keep \<and>
                  n_past s' = keep \<and>
                  tokens s = take (length (tokens s) - nat keep) (tokens s) @ tokens s' \<and>
                  n_past s - keep \<le> int (length (tokens s) - nat keep)))"
proof (intro conjI impI)
  assume "n_past s \<le> keep"
  then show "shiftContext L keep s = Some ((), s)" by (rule shiftContext_noop)
next
  assume k: "keep < n_past s"
  from shiftContext_shifts [OF assms(1) k assms(2,3), of L]
  obtain s' where s': "shiftContext L keep s = Some ((), s')" "n_past s' = keep"
    "tokens s' = drop (length (tokens s) - nat keep) (tokens s)"
    by blast
  have "int (length (tokens s')) = keep" using s'(3) assms(1,2) k by simp
  moreover have "n_past s - keep \<le> int (length (tokens s) - nat keep)"
    using assms(1,2) k by simp
  ultimately show "\<exists>s'. shiftContext L keep s = Some ((), s') \<and>
                  int (length (tokens s')) = keep \<and>
                  n_past s' = keep \<and>
                  tokens s = take (length (tokens s) - nat keep) (tokens s) @ tokens s' \<and>
                  n_past s - keep \<le> int (length (tokens s) - nat keep)"
    using s' by (intro exI[of _ s']) simp
qed

theorem shiftContext_keeps_last_witness:
  "(0::int) \<le> 1 \<and> n_past shift_state \<le> int (length (tokens shift_state)) \<and>
   \<not> mutex_locked shift_state \<and> 1 < n_past shift_state \<and>
   shiftContext (toy_llama (tok_per_char 1) 0 True) 1 shift_state \<noteq> None \<and>
   tokens (snd (the (shiftContext (toy_llama (tok_per_char 1) 0 True) 1 shift_state))) = [7] \<and>
   n_past (snd (the (shiftContext (toy_llama (tok_per_char 1) 0 True) 1 shift_state))) = 1 \<and>
   n_past shift_state \<le> 3 \<and>
   shiftContext (toy_llama (tok_per_char 1) 0 True) 3 shift_state = Some ((), shift_state)"
proof -
  have a: "(0::int) \<le> 1" "(0::int) \<le> 3" "n_past shift_state \<le> int (length (tokens shift_state))"
    "\<not> mutex_locked shift_state" "1 < n_past shift_state" "n_past shift_state \<le> 3"
    by (simp_all add: shift_state_def loaded_engine_def)
  from shiftContext_keeps_last [OF a(2) a(3) a(4), of "toy_llama (tok_per_char 1) 0 True"] a(6)
  have n: "shiftContext (toy_llama (tok_per_char 1) 0 True) 3 shift_state = Some ((), shift_state)"
    by simp
  from shiftContext_keeps_last [OF a(1) a(3) a(4), of "toy_llama (tok_per_char 1) 0 True"] a(5)
  obtain s' where s': "shiftContext (toy_llama (tok_per_char 1) 0 True) 1 shift_state = Some ((), s')"
    "int (length (tokens s')) = 1" "n_past s' = 1"
    "tokens shift_state = take (length (tokens shift_state) - nat 1) (tokens shift_state) @ tokens s'"
    by blast
  from s'(4) have "tokens s' = [7]" by (simp add: shift_state_def loaded_engine_def)
  then show ?thesis using a n s' by simp
qed

text \<open>
  C3, as stated, fails: \<^verbatim>\<open>shiftContext\<close> returns \<^verbatim>\<open>void\<close> and never looks at the answer
  of \<^verbatim>\<open>llama_memory_seq_rm\<close>. On a library that refuses the removal, a shift to one
  token of an engine holding three still truncates the history and lowers the
  committed count.
\<close>

theorem shiftContext_refusal_counterexample:
  "fst (llama_memory_seq_rm (toy_llama (tok_per_char 1) 0 False) 0 0
          (n_past shift_state - 1) (ctx shift_state)) = False \<and>
   tokens shift_state = [5, 6, 7] \<and> n_past shift_state = 3 \<and>
   refused_shift \<noteq> None \<and>
   tokens (snd (the refused_shift)) = [7] \<and>
   n_past (snd (the refused_shift)) = 1 \<and>
   ctx (snd (the refused_shift)) = [SeqRm 0 0 2, SeqAdd 0 2 3 (- 2)]"
  by code_simp

text \<open>
  C3, amended. When the backend refuses to remove the position range
  (\<^verbatim>\<open>llama_memory_seq_rm\<close> answers false), \<^verbatim>\<open>shiftContext(keep)\<close> with
  \<open>0 \<le> keep < committed \<le> len(history)\<close> still renumbers the remaining positions, sets
  \<open>committed = keep\<close> and truncates the history to its last \<open>keep\<close> tokens; it reports
  nothing to its caller.
\<close>

theorem shiftContext_ignores_refusal:
  assumes "0 \<le> keep" and "keep < n_past s" and "n_past s \<le> int (length (tokens s))"
    and "\<not> mutex_locked s" and "llama_get_memory L (ctx s)"
    and "\<not> fst (llama_memory_seq_rm L 0 0 (n_past s - keep) (ctx s))"
  shows "\<exists>s'. shiftContext L keep s = Some ((), s') \<and>
           n_past s' = keep \<and>
           tokens s' = drop (length (tokens s) - nat keep) (tokens s) \<and>
           ctx s' = llama_memory_seq_add L 0 (n_past s - keep) (n_past s) (- (n_past s - keep))
                      (snd (llama_memory_seq_rm L 0 0 (n_past s - keep) (ctx s)))"
  using shiftContext_shifts [OF assms(1-4), of L] assms(5) by auto

theorem shiftContext_ignores_refusal_witness:
  "(0::int) \<le> 1 \<and> 1 < n_past shift_state \<and>
   n_past shift_state \<le> int (length (tokens shift_state)) \<and>
   \<not> mutex_locked shift_state \<and>
   llama_get_memory (toy_llama (tok_per_char 1) 0 False) (ctx shift_state) \<and>
   \<not> fst (llama_memory_seq_rm (toy_llama (tok_per_char 1) 0 False) 0 0
            (n_past shift_state - 1) (ctx shift_state)) \<and>
   refused_shift \<noteq> None \<and>
   n_past (snd (the refused_shift)) = 1 \<and>
   tokens (snd (the refused_shift)) = [7]"
proof -
  let ?L = "toy_llama (tok_per_char 1) 0 False"
  have a: "(0::int) \<le> 1" "1 < n_past shift_state"
    "n_past shift_state \<le> int (length (tokens shift_state))"
    "\<not> mutex_locked shift_state"
    "llama_get_memory ?L (ctx shift_state)"
    "\<not> fst (llama_memory_seq_rm ?L 0 0 (n_past shift_state - 1) (ctx shift_state))"
    by (simp_all add: shift_state_def loaded_engine_def toy_llama_def)
  from shiftContext_ignores_refusal [OF a]
  obtain s' where s': "shiftContext ?L 1 shift_state = Some ((), s')" "n_past s' = 1"
    "tokens s' = drop (length (tokens shift_state) - nat 1) (tokens shift_state)"
    by blast
  from s'(3) have "tokens s' = [7]" by (simp add: shift_state_def loaded_engine_def)
  then show ?thesis using a s' by (simp add: refused_shift_def)
qed

text \<open>
  C4. A synchronous generation step (\<^verbatim>\<open>getNextToken\<close>) returns the empty string and
  clears \<^verbatim>\<open>is_generating_\<close> when \<open>committed \<ge> window_capacity - 1\<close> or when the count of
  generated tokens has reached \<^verbatim>\<open>max_tokens\<close>. Consequently, with a window of 2048
  tokens, a prompt that tokenizes to 10 tokens and \<^verbatim>\<open>max_tokens = 5\<close>, on a backend whose
  evaluation succeeds and whose sampler draws no end-of-sequence token, the
  synchronous loop delivers exactly five tokens and then the final empty one,
  \<open>committed\<close> ends at 15, and generation has ended without a stop request.
\<close>

theorem generation_limits:
  assumes ok: "\<forall>batch b. fst (llama_decode L batch b) = 0"
    and ne: "\<forall>b. \<not> llama_vocab_is_eog L (fst (llama_sampler_sample L b))"
    and cont: "\<forall>t. f t False"
    and s0: "loaded s0" "\<not> mutex_locked s0"
    and cfg: "context_length config = 2048" "max_tokens config = 5" "0 < batch_size config"
    and tk: "tokenizePrompt L prompt [] (llama_sampler_chain_init L config (ctx s0))
               = (True, toks, b)" "length toks = 10"
  shows "(\<not> mutex_locked s \<and>
          (context_length (current_config s) - 1 \<le> n_past s \<or>
           max_tokens (current_config s) \<le> generated_tokens s) \<longrightarrow>
            getNextToken L s = Some ([], s\<lparr>is_generating := False\<rparr>)) \<and>
         (\<exists>d s'. generateWithCallback L prompt config (Some f) s0
                    = Some (True, d @ [([], True)], s') \<and>
                  length d = 5 \<and> (\<forall>x\<in>set d. \<not> snd x) \<and>
                  n_past s' = 15 \<and> generated_tokens s' = 5 \<and> length (tokens s') = 15 \<and>
                  \<not> is_generating s' \<and> \<not> stop_requested s')"
proof
  show "\<not> mutex_locked s \<and>
          (context_length (current_config s) - 1 \<le> n_past s \<or>
           max_tokens (current_config s) \<le> generated_tokens s) \<longrightarrow>
            getNextToken L s = Some ([], s\<lparr>is_generating := False\<rparr>)"
    using getNextToken_at_limit by blast
next
  from startInference_succeeds [OF s0 cfg(3) tk(1)] ok
  obtain s1 where s1: "startInference L prompt config s0 = Some (True, s1)"
    "is_generating s1" "\<not> stop_requested s1" "\<not> mutex_locked s1"
    "tokens s1 = toks" "n_past s1 = int (length toks)"
    "generated_tokens s1 = 0" "current_config s1 = config"
    by blast
  have g: "generated_tokens s1 + int 5 = max_tokens (current_config s1)"
    and n: "n_past s1 + int 5 \<le> context_length (current_config s1) - 1"
    using s1 cfg tk(2) by simp_all
  from generate_loop_runs [of L f s1 5 "[]", OF _ _ _ s1(2-4) g n] ok ne cont
  obtain d s2 where r: "generate_loop L (Some f) [] s1 = Some ([] @ d @ [([], True)], s2)"
    "length d = 5" "\<forall>x\<in>set d. \<not> snd x"
    "\<not> is_generating s2" "\<not> stop_requested s2"
    "n_past s2 = n_past s1 + int 5"
    "generated_tokens s2 = max_tokens (current_config s1)"
    "length (tokens s2) = length (tokens s1) + 5"
    by blast
  have "generateWithCallback L prompt config (Some f) s0
          = Some (True, d @ [([], True)], s2\<lparr>is_generating := False\<rparr>)"
    using s1(1) r(1) by (simp add: generateWithCallback_def)
  then show "\<exists>d s'. generateWithCallback L prompt config (Some f) s0
                    = Some (True, d @ [([], True)], s') \<and>
                  length d = 5 \<and> (\<forall>x\<in>set d. \<not> snd x) \<and>
                  n_past s' = 15 \<and> generated_tokens s' = 5 \<and> length (tokens s') = 15 \<and>
                  \<not> is_generating s' \<and> \<not> stop_requested s'"
    using r s1 cfg tk(2)
    by (intro exI[of _ d] exI[of _ "s2\<lparr>is_generating := False\<rparr>"]) simp
qed

theorem generation_limits_witness:
  "(\<forall>batch b. fst (llama_decode (toy_llama (tok_per_char 1) 0 True) batch b) = 0) \<and>
   (\<forall>b. \<not> llama_vocab_is_eog (toy_llama (tok_per_char 1) 0 True)
           (fst (llama_sampler_sample (toy_llama (tok_per_char 1) 0 True) b))) \<and>
   (\<forall>t. always_continue t False) \<and>
   tokenizePrompt (toy_llama (tok_per_char 1) 0 True) ''0123456789'' [] [SamplerInit]
     = (True, replicate 10 7, [SamplerInit, Tokenize 42]) \<and>
   scenario_A \<noteq> None \<and>
   fst (the scenario_A) = True \<and>
   length (fst (snd (the scenario_A))) = 6 \<and>
   n_past (snd (snd (the scenario_A))) = 15 \<and>
   generated_tokens (snd (snd (the scenario_A))) = 5 \<and>
   \<not> is_generating (snd (snd (the scenario_A))) \<and>
   getNextToken (toy_llama (tok_per_char 1) 0 True) (loaded_engine (config_of 2048 512 0) [])
     = Some ([], (loaded_engine (config_of 2048 512 0) [])\<lparr>is_generating := False\<rparr>)"
proof -
  let ?L = "toy_llama (tok_per_char 1) 0 True"
  let ?c = "config_of 2048 512 5"
  let ?init = "loaded_engine ?c ([] :: call list)"
  let ?lim = "loaded_engine (config_of 2048 512 0) ([] :: call list)"
  have ok: "\<forall>batch b. fst (llama_decode ?L batch b) = 0"
    and ne: "\<forall>b. \<not> llama_vocab_is_eog ?L (fst (llama_sampler_sample ?L b))"
    and cont: "\<forall>t. always_continue t False"
    by (simp_all add: toy_llama_def always_continue_def)
  have s0: "loaded ?init" "\<not> mutex_locked ?init" by (simp_all add: loaded_engine_def)
  have cfg: "context_length ?c = 2048" "max_tokens ?c = 5" "0 < batch_size ?c"
    by (simp_all add: config_of_def)
  have tk': "tokenizePrompt ?L ''0123456789'' [] [SamplerInit]
              = (True, replicate 10 7, [SamplerInit, Tokenize 42])"
    by code_simp
  have i: "llama_sampler_chain_init ?L ?c (ctx ?init) = [SamplerInit]"
    by (simp add: toy_llama_def loaded_engine_def)
  have tk: "tokenizePrompt ?L ''0123456789'' [] (llama_sampler_chain_init ?L ?c (ctx ?init))
              = (True, replicate 10 7, [SamplerInit, Tokenize 42])"
    "length (replicate 10 (7::int)) = 10"
    using tk' i by simp_all
  have lim: "\<not> mutex_locked ?lim \<and>
          (context_length (current_config ?lim) - 1 \<le> n_past ?lim \<or>
           max_tokens (current_config ?lim) \<le> generated_tokens ?lim)"
    by (simp add: loaded_engine_def config_of_def)
  note th = generation_limits [where f = always_continue and s = ?lim, OF ok ne cont s0 cfg tk]
  from th lim have g: "getNextToken ?L ?lim = Some ([], ?lim\<lparr>is_generating := False\<rparr>)"
    by blast
  from th obtain d s' where
    r: "generateWithCallback ?L ''0123456789'' ?c (Some always_continue) ?init
          = Some (True, d @ [([], True)], s')"
      "length d = 5" "n_past s' = 15" "generated_tokens s' = 5" "\<not> is_generating s'"
    by blast
  then show ?thesis using ok ne cont tk' g by (simp add: scenario_A_def)
qed

text \<open>
  C9. \<^verbatim>\<open>tokenizePrompt\<close> first calls the tokenizer with a buffer of
  \<open>prompt.length() + 32\<close> entries. If that call succeeds (\<open>n1 \<ge> 0\<close>) it is the only
  call, and the vector is resized to \<open>n1\<close> entries. If it reports a too small buffer
  (\<open>n1 < 0\<close>), the tokenizer is called exactly once more, with the reported size
  \<open>-n1\<close>: on success the vector is resized to the \<open>n2\<close> entries produced, and on a
  second failure \<^verbatim>\<open>tokenizePrompt\<close> returns false and both \<^verbatim>\<open>startInference\<close> and
  \<^verbatim>\<open>startInferenceIncremental\<close> return false. The library state after the call (\<open>b1\<close>
  after one call, \<open>b2\<close> after two) shows how many calls were made.
\<close>

theorem tokenizePrompt_retries_once:
  assumes first: "llama_tokenize L prompt (int (length prompt) + 32) b = ((n1, out1), b1)"
    and second: "llama_tokenize L prompt (- n1) b1 = ((n2, out2), b2)"
  shows "(0 \<le> n1 \<longrightarrow>
            (\<exists>ts. tokenizePrompt L prompt toks b = (True, ts, b1) \<and> int (length ts) = n1 \<and>
                  (int (length out1) = n1 \<and> n1 \<le> int (length prompt) + 32 \<longrightarrow> ts = out1))) \<and>
         (n1 < 0 \<and> 0 \<le> n2 \<longrightarrow>
            (\<exists>ts. tokenizePrompt L prompt toks b = (True, ts, b2) \<and> int (length ts) = n2 \<and>
                  (int (length out2) = n2 \<and> n2 \<le> - n1 \<longrightarrow> ts = out2))) \<and>
         (n1 < 0 \<and> n2 < 0 \<longrightarrow>
            (\<exists>ts. tokenizePrompt L prompt toks b = (False, ts, b2)) \<and>
            (loaded s \<and> \<not> mutex_locked s \<and> toks = [] \<and>
             b = llama_sampler_chain_init L config (ctx s) \<longrightarrow>
               (\<exists>s'. startInference L prompt config s = Some (False, s')) \<and>
               (\<exists>s'. startInferenceIncremental L prompt config s = Some (False, s'))))"
proof (intro conjI impI)
  assume "0 \<le> n1"
  then show "\<exists>ts. tokenizePrompt L prompt toks b = (True, ts, b1) \<and> int (length ts) = n1 \<and>
                  (int (length out1) = n1 \<and> n1 \<le> int (length prompt) + 32 \<longrightarrow> ts = out1)"
    using tokenizePrompt_first [OF first, of toks]
    by (simp add: length_resize resize_write_buf)
next
  assume "n1 < 0 \<and> 0 \<le> n2"
  then show "\<exists>ts. tokenizePrompt L prompt toks b = (True, ts, b2) \<and> int (length ts) = n2 \<and>
                  (int (length out2) = n2 \<and> n2 \<le> - n1 \<longrightarrow> ts = out2)"
    using tokenizePrompt_second [OF first _ second, of toks]
    by (simp add: length_resize resize_write_buf)
next
  assume "n1 < 0 \<and> n2 < 0"
  then show "\<exists>ts. tokenizePrompt L prompt toks b = (False, ts, b2)"
    using tokenizePrompt_second [OF first _ second, of toks] by simp
next
  assume n: "n1 < 0 \<and> n2 < 0"
    and s: "loaded s \<and> \<not> mutex_locked s \<and> toks = [] \<and>
            b = llama_sampler_chain_init L config (ctx s)"
  from n obtain ts where
    t: "tokenizePrompt L prompt [] (llama_sampler_chain_init L config (ctx s)) = (False, ts, b2)"
    using tokenizePrompt_second [OF first _ second, of "[]"] s by simp
  from s have l: "loaded s" and m: "\<not> mutex_locked s" by simp_all
  show "\<exists>s'. startInference L prompt config s = Some (False, s')"
    by (rule startInference_tokenize_fails [OF l m t])
  show "\<exists>s'. startInferenceIncremental L prompt config s = Some (False, s')"
    by (rule startInferenceIncremental_tokenize_fails [OF l m t])
qed

theorem tokenizePrompt_retries_once_witness:
  "llama_tokenize (toy_llama (tok_per_char 40) 0 True) ''a'' (int (length ''a'') + 32) []
     = ((- 40, []), [Tokenize 33]) \<and>
   llama_tokenize (toy_llama (tok_per_char 40) 0 True) ''a'' (- (- 40)) [Tokenize 33]
     = ((40, replicate 40 7), [Tokenize 33, Tokenize 40]) \<and>
   tokenizePrompt (toy_llama (tok_per_char 40) 0 True) ''a'' [] []
     = (True, replicate 40 7, [Tokenize 33, Tokenize 40]) \<and>
   llama_tokenize (toy_llama tok_refuse 0 True) ''a'' (int (length ''a'') + 32) [SamplerInit]
     = ((- 34, []), [SamplerInit, Tokenize 33]) \<and>
   llama_tokenize (toy_llama tok_refuse 0 True) ''a'' (- (- 34)) [SamplerInit, Tokenize 33]
     = ((- 35, []), [SamplerInit, Tokenize 33, Tokenize 34]) \<and>
   startInference (toy_llama tok_refuse 0 True) ''a'' (config_of 64 32 8)
       (loaded_engine (config_of 64 32 8) []) \<noteq> None \<and>
   fst (the (startInference (toy_llama tok_refuse 0 True) ''a'' (config_of 64 32 8)
       (loaded_engine (config_of 64 32 8) []))) = False"
proof -
  let ?L1 = "toy_llama (tok_per_char 40) 0 True"
  let ?L2 = "toy_llama tok_refuse 0 True"
  let ?c = "config_of 64 32 8"
  let ?s = "loaded_engine ?c ([] :: call list)"
  have f1: "llama_tokenize ?L1 ''a'' (int (length ''a'') + 32) [] = ((- 40, []), [Tokenize 33])"
    by (simp add: toy_llama_def tok_per_char_def)
  have s1: "llama_tokenize ?L1 ''a'' (- (- 40)) [Tokenize 33]
              = ((40, replicate 40 7), [Tokenize 33, Tokenize 40])"
    by (simp add: toy_llama_def tok_per_char_def)
  have f2: "llama_tokenize ?L2 ''a'' (int (length ''a'') + 32) [SamplerInit]
              = ((- 34, []), [SamplerInit, Tokenize 33])"
    by (simp add: toy_llama_def tok_refuse_def)
  have s2: "llama_tokenize ?L2 ''a'' (- (- 34)) [SamplerInit, Tokenize 33]
              = ((- 35, []), [SamplerInit, Tokenize 33, Tokenize 34])"
    by (simp add: toy_llama_def tok_refuse_def)
  have st: "loaded ?s \<and> \<not> mutex_locked ?s \<and> ([] :: llama_token list) = [] \<and>
            [SamplerInit] = llama_sampler_chain_init ?L2 ?c (ctx ?s)"
    by (simp add: loaded_engine_def toy_llama_def)
  from tokenizePrompt_retries_once [OF f1 s1, of "[]"]
  have t1: "tokenizePrompt ?L1 ''a'' [] [] = (True, replicate 40 7, [Tokenize 33, Tokenize 40])"
    by auto
  from tokenizePrompt_retries_once [OF f2 s2, of "[]" ?s ?c] st
  obtain s' where "startInference ?L2 ''a'' ?c ?s = Some (False, s')"
    by auto
  then show ?thesis using f1 s1 f2 s2 t1 by simp
qed

section \<open>Claims about the memory manager\<close>

text \<open>
  C5. \<^verbatim>\<open>canAllocate(bytes)\<close> is meant to be true exactly when available memory is at
  least \<open>bytes\<close> plus the 100 MB safety margin and \<open>available - bytes\<close> leaves at least
  500 MB. The sum \<^verbatim>\<open>bytes + ALLOCATION_SAFETY_MARGIN\<close> is computed in \<^verbatim>\<open>size_t\<close> and
  wraps around: with 1 GB available, a request of \<open>2 ^ 64 - 100 MB\<close> bytes passes both
  checks although available memory is far below \<open>bytes + 100 MB\<close>. (Without
  wrap-around the gate is the one described, see \<open>canAllocate_nat\<close>, and the two
  scenarios of the claim hold, see \<open>canAllocate_scenario_C\<close>.)
\<close>

theorem canAllocate_wraps:
  "canAllocate (snapshot (1024 * 1024 * 1024)) (2 ^ 64 - 100 * 1024 * 1024) \<and>
   \<not> (unat (2 ^ 64 - 100 * 1024 * 1024 :: size_t) + 100 * 1024 * 1024
        \<le> unat (getAvailableMemory (snapshot (1024 * 1024 * 1024))))"
  by (simp add: canAllocate_def getAvailableMemory_snapshot
      ALLOCATION_SAFETY_MARGIN_def MIN_FREE_AFTER_ALLOC_def)

text \<open>
  C6. At a fixed snapshot, a request that is refused stays refused for every larger
  request. The code breaks this at the wrap-around of \<^verbatim>\<open>bytes + ALLOCATION_SAFETY_MARGIN\<close>:
  with 1 GB available a request of 1 GB is refused and the larger request of
  \<open>2 ^ 64 - 100 MB\<close> bytes is accepted. (For requests below the wrap-around the
  property holds, see \<open>canAllocate_antitone_in_range\<close>.)
\<close>

theorem canAllocate_not_antitone:
  "\<not> canAllocate (snapshot (1024 * 1024 * 1024)) (1024 * 1024 * 1024) \<and>
   (1024 * 1024 * 1024 :: size_t) \<le> 2 ^ 64 - 100 * 1024 * 1024 \<and>
   canAllocate (snapshot (1024 * 1024 * 1024)) (2 ^ 64 - 100 * 1024 * 1024)"
  by (simp add: canAllocate_def getAvailableMemory_snapshot
      ALLOCATION_SAFETY_MARGIN_def MIN_FREE_AFTER_ALLOC_def)

text \<open>
  C7. The pressure level follows the ladder on available memory: Critical exactly
  below 64 MB, High exactly in \<open>[64 MB, 128 MB)\<close>, Medium exactly in
  \<open>[128 MB, 256 MB)\<close>, and Low whenever at least 512 MB are available; the four
  threshold constants are strictly increasing.
\<close>

theorem pressure_ladder:
  "(getMemoryPressure h = Critical \<longleftrightarrow> unat (getAvailableMemory h) < 64 * 1024 * 1024) \<and>
   (getMemoryPressure h = High \<longleftrightarrow>
      64 * 1024 * 1024 \<le> unat (getAvailableMemory h) \<and>
      unat (getAvailableMemory h) < 128 * 1024 * 1024) \<and>
   (getMemoryPressure h = Medium \<longleftrightarrow>
      128 * 1024 * 1024 \<le> unat (getAvailableMemory h) \<and>
      unat (getAvailableMemory h) < 256 * 1024 * 1024) \<and>
   (512 * 1024 * 1024 \<le> unat (getAvailableMemory h) \<longrightarrow> getMemoryPressure h = Low) \<and>
   MEMORY_CRITICAL_THRESHOLD < MEMORY_HIGH_THRESHOLD \<and>
   MEMORY_HIGH_THRESHOLD < MEMORY_MEDIUM_THRESHOLD \<and>
   MEMORY_MEDIUM_THRESHOLD < MEMORY_LOW_THRESHOLD"
  by (simp add: getMemoryPressure_def Let_def MEMORY_CRITICAL_THRESHOLD_def
      MEMORY_HIGH_THRESHOLD_def MEMORY_MEDIUM_THRESHOLD_def MEMORY_LOW_THRESHOLD_def
      word_less_nat_alt)

theorem pressure_ladder_witness:
  "512 * 1024 * 1024 \<le> unat (getAvailableMemory (snapshot (512 * 1024 * 1024))) \<and>
   getMemoryPressure (snapshot (512 * 1024 * 1024)) = Low"
  using pressure_ladder [of "snapshot (512 * 1024 * 1024)"]
  by (simp add: getAvailableMemory_snapshot)

text \<open>
  C8. \<^verbatim>\<open>getRecommendedContextSize\<close> returns, for every amount of available memory,
  the spec's value: \<open>usable = max(0, available - 100 MB)\<close>, \<open>tokens = usable / 4096\<close>
  clamped to \<open>[512, 32768]\<close>, rounded down to a power of two. The result is a power
  of two, it is at most the clamped value, and twice the result exceeds the clamped
  value, so it is the largest such power.
\<close>

theorem recommended_context_size:
  "\<exists>r k. getRecommendedContextSize h = Some r \<and>
     unat r = spec_recommendedWindowCapacity (unat (getAvailableMemory h)) \<and>
     unat r = 2 ^ k \<and>
     unat r \<le> spec_clamped_tokens (unat (getAvailableMemory h)) \<and>
     spec_clamped_tokens (unat (getAvailableMemory h)) < 2 * unat r"
proof -
  obtain r k where rk: "getRecommendedContextSize h = Some r" "unat r = 2 ^ k"
      "2 ^ k \<le> spec_clamped_tokens (unat (getAvailableMemory h))"
      "spec_clamped_tokens (unat (getAvailableMemory h)) < 2 ^ Suc k"
    using recommended_pow2 by blast
  have "spec_recommendedWindowCapacity (unat (getAvailableMemory h)) = 2 ^ k"
    unfolding spec_recommendedWindowCapacity_def using rk(3,4) by (rule pow2_floor_between)
  then show ?thesis using rk by (intro exI[of _ r] exI[of _ k]) simp
qed

text \<open>
  C10. \<^verbatim>\<open>unregisterModelMemory\<close> and \<^verbatim>\<open>unregisterContextMemory\<close> only lower their
  own running total, stopping at zero, and leave the log of callback invocations as
  it was (they do not even read the host's memory). \<^verbatim>\<open>registerModelMemory\<close> and
  \<^verbatim>\<open>registerContextMemory\<close> add to their total and then run \<^verbatim>\<open>checkMemoryPressure\<close>,
  which invokes the callback once, with the pressure level, exactly when a callback
  is registered and the level is not Low.
\<close>

theorem registration_pressure_callback:
  "unregisterModelMemory bytes s =
     s\<lparr>model_memory := (if bytes > model_memory s then 0 else model_memory s - bytes)\<rparr> \<and>
   unregisterContextMemory bytes s =
     s\<lparr>context_memory := (if bytes > context_memory s then 0 else context_memory s - bytes)\<rparr> \<and>
   unat (model_memory (unregisterModelMemory bytes s)) = unat (model_memory s) - unat bytes \<and>
   unat (context_memory (unregisterContextMemory bytes s)) =
     unat (context_memory s) - unat bytes \<and>
   callback_log (unregisterModelMemory bytes s) = callback_log s \<and>
   callback_log (unregisterContextMemory bytes s) = callback_log s \<and>
   registerModelMemory h bytes s =
     checkMemoryPressure h (s\<lparr>model_memory := model_memory s + bytes\<rparr>) \<and>
   registerContextMemory h bytes s =
     checkMemoryPressure h (s\<lparr>context_memory := context_memory s + bytes\<rparr>) \<and>
   callback_log (checkMemoryPressure h s) =
     callback_log s @
       (case pressure_callback s of
          None \<Rightarrow> []
        | Some c \<Rightarrow> if getMemoryPressure h = Low then [] else [(c, getMemoryPressure h)])"
  by (simp add: unregisterModelMemory_def unregisterContextMemory_def
      registerModelMemory_def registerContextMemory_def checkMemoryPressure_log
      unat_sub word_less_nat_alt not_less word_le_nat_alt)

end
